theory Spec2Isabelle
  imports Main "HOL-Library.AList"
begin

section \<open>Data model of roi/business\_logic.py\<close>

text \<open>
  Class identifiers are Python strings. An event identifier is the result of
  \<^verbatim>\<open>str(uuid4())\<close>; the generator is modelled by the number of draws made so far, so
  the identifier of a signal is the index of the draw that produced it.
\<close>

type_synonym class_id = string
type_synonym event_id = nat

text \<open>
  A prediction is a dictionary that is read at the key \<^verbatim>\<open>classId\<close> only; the field is
  \<open>None\<close> when the key is missing. A detection is a dictionary read at the key
  \<^verbatim>\<open>predictions\<close> only; every other entry is opaque and stands here as one frame tag.
\<close>

record prediction =
  classId :: "class_id option"

record detection =
  frame :: nat
  predictions :: "prediction list option"

text \<open>
  The environment of a call: how many identifiers \<^verbatim>\<open>uuid4\<close> has handed out and how often
  the wall clock has been read by \<^verbatim>\<open>time.time\<close>.
\<close>

record world =
  uuid_calls :: nat
  time_calls :: nat

definition uuid4 :: "world \<Rightarrow> event_id \<times> world" where
  "uuid4 w = (uuid_calls w, w\<lparr>uuid_calls := Suc (uuid_calls w)\<rparr>)"

definition time_time :: "world \<Rightarrow> nat \<times> world" where
  "time_time w = (time_calls w, w\<lparr>time_calls := Suc (time_calls w)\<rparr>)"

datatype error = KeyError string

datatype signal =
    EventStartedSignal event_id detection
  | EventEndedSignal event_id detection

fun is_started :: "signal \<Rightarrow> bool" where
  "is_started (EventStartedSignal eid d) = True"
| "is_started (EventEndedSignal eid d) = False"

fun is_ended :: "signal \<Rightarrow> bool" where
  "is_ended (EventStartedSignal eid d) = False"
| "is_ended (EventEndedSignal eid d) = True"

subsection \<open>class Event\<close>

record event =
  detection :: detection
  num_detected_frames :: int
  creation_time :: nat
  ttl :: int
  current_ttl :: int

definition Event :: "detection \<Rightarrow> int \<Rightarrow> nat \<Rightarrow> event" where
  "Event d l now =
     \<lparr>detection = d, num_detected_frames = 1, creation_time = now, ttl = l, current_ttl = l\<rparr>"

definition reset_ttl :: "event \<Rightarrow> event" where
  "reset_ttl e = e\<lparr>current_ttl := ttl e\<rparr>"

definition no_detection :: "event \<Rightarrow> event" where
  "no_detection e = e\<lparr>current_ttl := current_ttl e - 1\<rparr>"

definition new_detection :: "event \<Rightarrow> detection \<Rightarrow> event" where
  "new_detection e d =
     reset_ttl (e\<lparr>detection := d, num_detected_frames := num_detected_frames e + 1\<rparr>)"

definition is_expired :: "event \<Rightarrow> bool" where
  "is_expired e = (current_ttl e \<le> 0)"

subsection \<open>class RoIBusinessLogic\<close>

text \<open>
  A Python dictionary keeps its keys in insertion order, assigning to a present key keeps
  the key's place, and deleting removes the entry: an association list under
  \<open>AList.update\<close>, \<open>AList.delete\<close> and \<open>map_of\<close>.
\<close>

type_synonym ('k, 'v) dict = "('k \<times> 'v) list"

definition keys :: "('k, 'v) dict \<Rightarrow> 'k list" where
  "keys d = map fst d"

definition dict_in :: "'k \<Rightarrow> ('k, 'v) dict \<Rightarrow> bool" where
  "dict_in k d = (k \<in> set (keys d))"

record tracker =
  total_frames :: int
  event_dict :: "(class_id, event) dict"
  active_events :: "(class_id, event_id) dict"
  tracker_ttl :: int

definition RoIBusinessLogic :: "int \<Rightarrow> int \<Rightarrow> tracker" where
  "RoIBusinessLogic n l =
     \<lparr>total_frames = n, event_dict = [], active_events = [], tracker_ttl = l\<rparr>"

definition is_start_event :: "tracker \<Rightarrow> class_id \<Rightarrow> event \<Rightarrow> bool" where
  "is_start_event t key ev =
     (if num_detected_frames ev < total_frames t then False
      else if dict_in key (active_events t) then False
      else True)"

definition is_end_event :: "tracker \<Rightarrow> class_id \<Rightarrow> bool" where
  "is_end_event t key = (if \<not> dict_in key (active_events t) then False else True)"

text \<open>
  The signals of the source carry an identifier and a detection, not the class. Each loop
  below records, beside every signal it appends, the dictionary key the loop was at; the
  list the source returns is the second components.
\<close>

type_synonym tagged = "class_id \<times> signal"

text \<open>The loop of \<^verbatim>\<open>_get_starting_events\<close> over the items of \<^verbatim>\<open>_event_dict\<close>.\<close>

fun starting_loop ::
  "(class_id \<times> event) list \<Rightarrow> tracker \<Rightarrow> world \<Rightarrow> tagged list
     \<Rightarrow> tagged list \<times> tracker \<times> world" where
  "starting_loop [] t w events = (events, t, w)"
| "starting_loop ((k, ev) # items) t w events =
     (if is_start_event t k ev then
        (case uuid4 w of (eid, w') \<Rightarrow>
           starting_loop items
             (t\<lparr>active_events := AList.update k eid (active_events t)\<rparr>) w'
             (events @ [(k, EventStartedSignal eid (detection ev))]))
      else starting_loop items t w events)"

definition get_starting_events :: "tracker \<Rightarrow> world \<Rightarrow> tagged list \<times> tracker \<times> world" where
  "get_starting_events t w = starting_loop (event_dict t) t w []"

text \<open>
  The first loop of \<^verbatim>\<open>_get_ending_events\<close>. The lookup \<^verbatim>\<open>self._active_events[k]\<close> is
  made after \<^verbatim>\<open>_is_end_event\<close> has found the key, so its \<open>None\<close> branch is never taken
  (lemma \<open>is_end_event_lookup\<close>).
\<close>

fun ending_loop ::
  "(class_id \<times> event) list \<Rightarrow> tracker \<Rightarrow> tagged list \<Rightarrow> class_id list
     \<Rightarrow> tagged list \<times> class_id list \<times> tracker" where
  "ending_loop [] t events del_events = (events, del_events, t)"
| "ending_loop ((k, ev) # items) t events del_events =
     (if \<not> is_expired ev then ending_loop items t events del_events
      else if is_end_event t k then
        (case map_of (active_events t) k of
           Some eid \<Rightarrow>
             ending_loop items (t\<lparr>active_events := AList.delete k (active_events t)\<rparr>)
               (events @ [(k, EventEndedSignal eid (detection ev))]) (del_events @ [k])
         | None \<Rightarrow> ending_loop items t events (del_events @ [k]))
      else ending_loop items t events (del_events @ [k]))"

text \<open>
  The second loop deletes the marked keys. The keys of a dictionary are distinct, so no key
  is marked twice and \<^verbatim>\<open>del\<close> always finds its key.
\<close>

definition get_ending_events :: "tracker \<Rightarrow> tagged list \<times> tracker" where
  "get_ending_events t =
     (case ending_loop (event_dict t) t [] [] of
        (events, del_events, t') \<Rightarrow>
          (events, t'\<lparr>event_dict := fold AList.delete del_events (event_dict t')\<rparr>))"

text \<open>
  The loop of \<^verbatim>\<open>process\<close> over the predictions. A prediction without \<^verbatim>\<open>classId\<close>
  raises in the middle of the loop: the error comes back with the tracker as the earlier
  iterations left it.
\<close>

fun update_loop ::
  "detection \<Rightarrow> prediction list \<Rightarrow> class_id set \<Rightarrow> tracker \<Rightarrow> world
     \<Rightarrow> error option \<times> class_id set \<times> tracker \<times> world" where
  "update_loop d [] cs t w = (None, cs, t, w)"
| "update_loop d (p # ps) cs t w =
     (case classId p of
        None \<Rightarrow> (Some (KeyError ''classId''), cs, t, w)
      | Some c \<Rightarrow>
          (case map_of (event_dict t) c of
             None \<Rightarrow>
               (case time_time w of (now, w') \<Rightarrow>
                  update_loop d ps (insert c cs)
                    (t\<lparr>event_dict :=
                         AList.update c (Event d (tracker_ttl t) now) (event_dict t)\<rparr>) w')
           | Some e \<Rightarrow>
               update_loop d ps (insert c cs)
                 (t\<lparr>event_dict := AList.update c (new_detection e d) (event_dict t)\<rparr>) w))"

text \<open>
  The loop over \<^verbatim>\<open>classes_not_in_frame\<close>. The source iterates over a set; the steps
  touch different keys, so the order does not matter, and the model takes the order of
  the dictionary.
\<close>

definition classes_not_in_frame :: "tracker \<Rightarrow> class_id set \<Rightarrow> class_id list" where
  "classes_not_in_frame t cs = filter (\<lambda>k. k \<notin> cs) (keys (event_dict t))"

definition decay_step :: "class_id \<Rightarrow> tracker \<Rightarrow> tracker" where
  "decay_step cls t =
     (case map_of (event_dict t) cls of
        Some e \<Rightarrow> t\<lparr>event_dict := AList.update cls (no_detection e) (event_dict t)\<rparr>
      | None \<Rightarrow> t)"

definition decay :: "tracker \<Rightarrow> class_id set \<Rightarrow> tracker" where
  "decay t cs = fold decay_step (classes_not_in_frame t cs) t"

text \<open>
  \<^verbatim>\<open>process\<close> up to the two calls that collect the signals (the keys beside them):
  the raised error, or the two lists, with the tracker and the environment after these
  steps.
\<close>

definition process_phases ::
  "tracker \<Rightarrow> detection \<Rightarrow> world
     \<Rightarrow> (error + tagged list \<times> tagged list) \<times> tracker \<times> world" where
  "process_phases t d w =
     (case predictions d of
        None \<Rightarrow> (Inl (KeyError ''predictions''), t, w)
      | Some ps \<Rightarrow>
          (case update_loop d ps {} t w of
             (Some err, cs, t1, w1) \<Rightarrow> (Inl err, t1, w1)
           | (None, cs, t1, w1) \<Rightarrow>
               (case get_starting_events (decay t1 cs) w1 of
                  (start_events, t3, w3) \<Rightarrow>
                    (case get_ending_events t3 of
                       (end_events, t4) \<Rightarrow> (Inr (start_events, end_events), t4, w3)))))"

text \<open>
  The last two lines of \<^verbatim>\<open>process\<close>: the concatenation, or \<open>None\<close> when it is empty.
\<close>

definition process_tagged ::
  "tracker \<Rightarrow> detection \<Rightarrow> world \<Rightarrow> (error + tagged list option) \<times> tracker \<times> world" where
  "process_tagged t d w =
     (case process_phases t d w of
        (Inl err, t', w') \<Rightarrow> (Inl err, t', w')
      | (Inr (start_events, end_events), t', w') \<Rightarrow>
          (Inr (if start_events @ end_events \<noteq> []
                then Some (start_events @ end_events) else None), t', w'))"

definition untag :: "error + tagged list option \<Rightarrow> error + signal list option" where
  "untag r = map_sum id (map_option (map snd)) r"

definition process ::
  "tracker \<Rightarrow> detection \<Rightarrow> world \<Rightarrow> (error + signal list option) \<times> tracker \<times> world" where
  "process t d w = (case process_tagged t d w of (r, t', w') \<Rightarrow> (untag r, t', w'))"

text \<open>
  A driving loop: one call per frame, going on with the tracker as a raising call left it.
\<close>

fun run ::
  "tracker \<Rightarrow> world \<Rightarrow> detection list
     \<Rightarrow> (error + tagged list option) list \<times> tracker \<times> world" where
  "run t w [] = ([], t, w)"
| "run t w (d # ds) =
     (case process_tagged t d w of
        (r, t', w') \<Rightarrow> (case run t' w' ds of (rs, t'', w'') \<Rightarrow> (r # rs, t'', w'')))"

definition run_tracker :: "tracker \<Rightarrow> world \<Rightarrow> detection list \<Rightarrow> tracker" where
  "run_tracker t w ds = fst (snd (run t w ds))"

section \<open>Notions used in the statements\<close>

text \<open>
  The classes of a frame, one entry per prediction that names a class, and the payloads
  on which the loop over the predictions cannot raise.
\<close>

definition frame_classes :: "detection \<Rightarrow> class_id list" where
  "frame_classes d =
     (case predictions d of None \<Rightarrow> [] | Some ps \<Rightarrow> List.map_filter classId ps)"

definition well_formed :: "detection \<Rightarrow> bool" where
  "well_formed d =
     (case predictions d of None \<Rightarrow> False | Some ps \<Rightarrow> list_all (\<lambda>p. classId p \<noteq> None) ps)"

text \<open>The event after \<open>n\<close> calls of \<open>new_detection\<close> with the same payload.\<close>

definition detected :: "event \<Rightarrow> detection \<Rightarrow> nat \<Rightarrow> event" where
  "detected e d n =
     (if n = 0 then e
      else e\<lparr>detection := d, num_detected_frames := num_detected_frames e + int n,
              current_ttl := ttl e\<rparr>)"

text \<open>
  \<open>seen t d c ev\<close>: \<open>ev\<close> is what the first two loops of \<open>process\<close> make of the entry of
  class \<open>c\<close> on the payload \<open>d\<close>.
\<close>

definition seen :: "tracker \<Rightarrow> detection \<Rightarrow> class_id \<Rightarrow> event option \<Rightarrow> bool" where
  "seen t d c ev =
     (case map_of (event_dict t) c of
        Some e \<Rightarrow>
          ev = Some (if count_list (frame_classes d) c = 0 then no_detection e
                     else detected e d (count_list (frame_classes d) c))
      | None \<Rightarrow>
          (if count_list (frame_classes d) c = 0 then ev = None
           else \<exists>now. ev = Some \<lparr>detection = d,
                             num_detected_frames = int (count_list (frame_classes d) c),
                             creation_time = now, ttl = tracker_ttl t,
                             current_ttl = tracker_ttl t\<rparr>))"

text \<open>
  The classes for which a call returned a started signal, and those for which it returned
  an ended signal, read off the keys recorded beside the signals.
\<close>

definition started_keys :: "error + tagged list option \<Rightarrow> class_id list" where
  "started_keys r =
     (case r of Inr (Some sigs) \<Rightarrow> map fst (filter (\<lambda>x. is_started (snd x)) sigs) | _ \<Rightarrow> [])"

definition ended_keys :: "error + tagged list option \<Rightarrow> class_id list" where
  "ended_keys r =
     (case r of Inr (Some sigs) \<Rightarrow> map fst (filter (\<lambda>x. is_ended (snd x)) sigs) | _ \<Rightarrow> [])"

text \<open>
  \<open>expires_unstarted t d c\<close>: in the call on payload \<open>d\<close> the entry of class \<open>c\<close> expires
  below the threshold. Either the class is tracked and absent from the frame with one
  frame left to live, or it is in the frame but its events live no frame at all
  (\<open>ttl \<le> 0\<close>) and the detections of this frame leave its count below \<open>total_frames\<close>.
\<close>

definition expires_unstarted :: "tracker \<Rightarrow> detection \<Rightarrow> class_id \<Rightarrow> bool" where
  "expires_unstarted t d c =
     (case map_of (event_dict t) c of
        Some e \<Rightarrow>
          (if count_list (frame_classes d) c = 0
           then current_ttl e \<le> 1 \<and> num_detected_frames e < total_frames t
           else ttl e \<le> 0
                \<and> num_detected_frames e + int (count_list (frame_classes d) c) < total_frames t)
      | None \<Rightarrow>
          0 < count_list (frame_classes d) c \<and> tracker_ttl t \<le> 0
          \<and> int (count_list (frame_classes d) c) < total_frames t)"

text \<open>The invariant of the tracker between calls.\<close>

definition event_ok :: "int \<Rightarrow> event \<Rightarrow> bool" where
  "event_ok l e \<longleftrightarrow> ttl e = l \<and> current_ttl e \<le> l \<and> (1 \<le> l \<longrightarrow> 1 \<le> current_ttl e)"

definition tracker_inv :: "tracker \<Rightarrow> bool" where
  "tracker_inv t \<longleftrightarrow>
     distinct (map fst (event_dict t))
     \<and> set (map fst (active_events t)) \<subseteq> set (map fst (event_dict t))
     \<and> list_all (\<lambda>p. event_ok (tracker_ttl t) (snd p)) (event_dict t)
     \<and> (tracker_ttl t \<le> 0 \<longrightarrow> active_events t = [])"

section \<open>Event\<close>

lemma is_end_event_lookup: "is_end_event t k \<longleftrightarrow> map_of (active_events t) k \<noteq> None"
  by (simp add: is_end_event_def dict_in_def keys_def map_of_eq_None_iff)

text \<open>
  C7. An event created with limit \<open>l\<close> has \<open>current_ttl \<le> l\<close>; \<open>no_detection\<close> and
  \<open>new_detection\<close> keep the limit and the bound; \<open>is_expired\<close> holds exactly when
  \<open>current_ttl \<le> 0\<close>.
\<close>

theorem event_ttl_bound:
  "ttl (Event d l now) = l \<and> current_ttl (Event d l now) \<le> l
   \<and> (current_ttl e \<le> ttl e \<longrightarrow>
        ttl (no_detection e) = ttl e \<and> current_ttl (no_detection e) \<le> ttl e)
   \<and> (current_ttl e \<le> ttl e \<longrightarrow>
        ttl (new_detection e d') = ttl e \<and> current_ttl (new_detection e d') \<le> ttl e)
   \<and> (is_expired e \<longleftrightarrow> current_ttl e \<le> 0)"
  by (simp add: Event_def no_detection_def new_detection_def reset_ttl_def is_expired_def)

theorem event_ttl_bound_witness:
  "current_ttl (Event \<lparr>frame = 1, predictions = Some []\<rparr> 2 0) \<le> 2
   \<and> current_ttl (no_detection (Event \<lparr>frame = 1, predictions = Some []\<rparr> 2 0)) \<le> 2
   \<and> current_ttl (new_detection (no_detection (Event \<lparr>frame = 1, predictions = Some []\<rparr> 2 0))
        \<lparr>frame = 2, predictions = Some []\<rparr>) \<le> 2
   \<and> \<not> is_expired (Event \<lparr>frame = 1, predictions = Some []\<rparr> 2 0)"
  using event_ttl_bound [of "\<lparr>frame = 1, predictions = Some []\<rparr>" 2 0
      "Event \<lparr>frame = 1, predictions = Some []\<rparr> 2 0" "\<lparr>frame = 2, predictions = Some []\<rparr>"]
    event_ttl_bound [of "\<lparr>frame = 1, predictions = Some []\<rparr>" 2 0
      "no_detection (Event \<lparr>frame = 1, predictions = Some []\<rparr> 2 0)"
      "\<lparr>frame = 2, predictions = Some []\<rparr>"]
  by (simp add: Event_def no_detection_def new_detection_def reset_ttl_def is_expired_def)

section \<open>Payloads without predictions\<close>

text \<open>
  C10. A payload without the \<^verbatim>\<open>predictions\<close> entry makes \<open>process\<close> raise the key error
  of that lookup, and the tracker (both dictionaries, and the environment) is as before.
\<close>

theorem process_missing_predictions:
  "predictions d = None \<Longrightarrow> process t d w = (Inl (KeyError ''predictions''), t, w)"
  by (simp add: process_def process_tagged_def process_phases_def untag_def)

theorem process_missing_predictions_witness:
  "process (RoIBusinessLogic 3 2) \<lparr>frame = 1, predictions = None\<rparr> \<lparr>uuid_calls = 0, time_calls = 0\<rparr>
     = (Inl (KeyError ''predictions''), RoIBusinessLogic 3 2, \<lparr>uuid_calls = 0, time_calls = 0\<rparr>)"
  using process_missing_predictions
    [of "\<lparr>frame = 1, predictions = None\<rparr>" "RoIBusinessLogic 3 2" "\<lparr>uuid_calls = 0, time_calls = 0\<rparr>"]
  by simp

text \<open>The defining equations that evaluate a call on a concrete tracker.\<close>

lemmas tracker_eval =
  process_def process_tagged_def process_phases_def untag_def RoIBusinessLogic_def
  decay_def decay_step_def classes_not_in_frame_def keys_def get_starting_events_def
  get_ending_events_def is_start_event_def is_end_event_def dict_in_def uuid4_def
  time_time_def Event_def new_detection_def no_detection_def reset_ttl_def is_expired_def

section \<open>The returned value\<close>

lemma starting_loop_started:
  "starting_loop items t w events = (evs, t', w') \<Longrightarrow> \<forall>x\<in>set events. is_started (snd x)
     \<Longrightarrow> \<forall>x\<in>set evs. is_started (snd x)"
proof (induction items t w events rule: starting_loop.induct)
  case (1 t w events)
  then show ?case by simp
next
  case (2 k ev items t w events)
  then show ?case
    by (auto simp: uuid4_def split: if_splits)
qed

lemma ending_loop_ended:
  "ending_loop items t events dels = (evs, dels', t') \<Longrightarrow> \<forall>x\<in>set events. is_ended (snd x)
     \<Longrightarrow> \<forall>x\<in>set evs. is_ended (snd x)"
proof (induction items t events dels rule: ending_loop.induct)
  case (1 t events del_events)
  then show ?case by simp
next
  case (2 k ev items t events del_events)
  then show ?case
    by (auto split: if_splits option.splits)
qed

lemma get_starting_events_started:
  "get_starting_events t w = (evs, t', w') \<Longrightarrow> \<forall>x\<in>set evs. is_started (snd x)"
  unfolding get_starting_events_def by (erule starting_loop_started) simp

lemma get_ending_events_ended:
  "get_ending_events t = (evs, t') \<Longrightarrow> \<forall>x\<in>set evs. is_ended (snd x)"
  unfolding get_ending_events_def
  by (auto split: prod.splits dest: ending_loop_ended)

lemma process_phases_kinds:
  "process_phases t d w = (Inr (s, e), t', w')
     \<Longrightarrow> (\<forall>x\<in>set s. is_started (snd x)) \<and> (\<forall>x\<in>set e. is_ended (snd x))"
  unfolding process_phases_def
  by (auto split: option.splits prod.splits
      dest!: get_starting_events_started get_ending_events_ended)

lemma process_eq_phases:
  "fst (process t d w) =
     (case fst (process_phases t d w) of
        Inl err \<Rightarrow> Inl err
      | Inr (s, e) \<Rightarrow>
          Inr (if map snd s @ map snd e \<noteq> [] then Some (map snd s @ map snd e) else None))"
  by (auto simp: process_def process_tagged_def untag_def split: prod.splits sum.splits)

text \<open>
  C5. \<open>process\<close> never returns the empty list: it returns \<open>None\<close> exactly when the call
  collected no started and no ended signal, and so it does for an empty list of predictions
  on a new tracker.
\<close>

theorem process_none_marker:
  "fst (process t d w) \<noteq> Inr (Some [])
   \<and> (fst (process_phases t d w) = Inr (s, e) \<longrightarrow>
        (fst (process t d w) = Inr None \<longleftrightarrow> s = [] \<and> e = []))
   \<and> fst (process (RoIBusinessLogic n l) \<lparr>frame = f, predictions = Some []\<rparr> w) = Inr None"
proof -
  have a: "fst (process t d w) \<noteq> Inr (Some [])"
    by (auto simp: process_eq_phases split: sum.splits)
  have b: "fst (process_phases t d w) = Inr (s, e) \<longrightarrow>
        (fst (process t d w) = Inr None \<longleftrightarrow> s = [] \<and> e = [])"
    by (auto simp: process_eq_phases)
  have c: "fst (process (RoIBusinessLogic n l) \<lparr>frame = f, predictions = Some []\<rparr> w) = Inr None"
    by (simp add: process_def process_tagged_def process_phases_def untag_def
        RoIBusinessLogic_def decay_def classes_not_in_frame_def keys_def
        get_starting_events_def get_ending_events_def)
  from a b c show ?thesis by blast
qed

theorem process_none_marker_witness:
  "fst (process (RoIBusinessLogic 3 2) \<lparr>frame = 1, predictions = Some [\<lparr>classId = Some ''car''\<rparr>]\<rparr>
          \<lparr>uuid_calls = 0, time_calls = 0\<rparr>) \<noteq> Inr (Some [])
   \<and> fst (process_phases (RoIBusinessLogic 3 2)
          \<lparr>frame = 1, predictions = Some [\<lparr>classId = Some ''car''\<rparr>]\<rparr>
          \<lparr>uuid_calls = 0, time_calls = 0\<rparr>) = Inr ([], [])
   \<and> fst (process (RoIBusinessLogic 3 2) \<lparr>frame = 1, predictions = Some [\<lparr>classId = Some ''car''\<rparr>]\<rparr>
          \<lparr>uuid_calls = 0, time_calls = 0\<rparr>) = Inr None"
proof -
  have h: "fst (process_phases (RoIBusinessLogic 3 2)
          \<lparr>frame = 1, predictions = Some [\<lparr>classId = Some ''car''\<rparr>]\<rparr>
          \<lparr>uuid_calls = 0, time_calls = 0\<rparr>) = Inr ([], [])"
    by (simp add: tracker_eval)
  show ?thesis
    using h process_none_marker [of "RoIBusinessLogic 3 2"
        "\<lparr>frame = 1, predictions = Some [\<lparr>classId = Some ''car''\<rparr>]\<rparr>"
        "\<lparr>uuid_calls = 0, time_calls = 0\<rparr>" "[]" "[]"]
    by simp
qed

text \<open>
  C6. A list returned by \<open>process\<close> is the started signals of the call followed by its
  ended signals: the first part holds started signals only, the second ended signals only,
  and no ended signal stands at a position before a started one.
\<close>

theorem process_starts_before_ends:
  assumes "fst (process t d w) = Inr (Some sigs)"
  shows "\<exists>s e. fst (process_phases t d w) = Inr (s, e) \<and> sigs = map snd s @ map snd e
           \<and> (\<forall>x\<in>set (map snd s). is_started x) \<and> (\<forall>x\<in>set (map snd e). is_ended x)
           \<and> (\<forall>i j. i < j \<and> j < length sigs \<longrightarrow> \<not> (is_ended (sigs ! i) \<and> is_started (sigs ! j)))"
proof -
  from assms obtain s e where ph: "fst (process_phases t d w) = Inr (s, e)"
    and sigs: "sigs = map snd s @ map snd e"
    by (auto simp: process_eq_phases split: sum.splits if_splits)
  obtain t' w' where "process_phases t d w = (Inr (s, e), t', w')"
    using ph by (cases "process_phases t d w") auto
  then have st: "\<forall>x\<in>set s. is_started (snd x)" and en: "\<forall>x\<in>set e. is_ended (snd x)"
    by (auto dest: process_phases_kinds)
  have kinds: "is_started x \<longleftrightarrow> \<not> is_ended x" for x
    by (cases x) simp_all
  have order: "\<not> (is_ended (sigs ! i) \<and> is_started (sigs ! j))"
    if "i < j" "j < length sigs" for i j
  proof (cases "j < length s")
    case True
    with that have "i < length s" by simp
    then have "sigs ! i = snd (s ! i)" by (simp add: sigs nth_append)
    moreover have "is_started (snd (s ! i))" using st \<open>i < length s\<close> by simp
    ultimately show ?thesis by (simp add: kinds)
  next
    case False
    then have "sigs ! j = snd (e ! (j - length s))"
      using that by (simp add: sigs nth_append)
    moreover have "j - length s < length e" using that False by (simp add: sigs)
    then have "is_ended (snd (e ! (j - length s)))" using en by simp
    ultimately show ?thesis by (simp add: kinds)
  qed
  from ph sigs st en order show ?thesis by auto
qed

theorem process_starts_before_ends_witness:
  "fst (process
     \<lparr>total_frames = 1,
      event_dict = [(''car'', Event \<lparr>frame = 1, predictions = Some [\<lparr>classId = Some ''car''\<rparr>]\<rparr> 1 0)],
      active_events = [(''car'', 0)], tracker_ttl = 1\<rparr>
     \<lparr>frame = 2, predictions = Some [\<lparr>classId = Some ''dog''\<rparr>]\<rparr>
     \<lparr>uuid_calls = 1, time_calls = 1\<rparr>)
   = Inr (Some [EventStartedSignal 1 \<lparr>frame = 2, predictions = Some [\<lparr>classId = Some ''dog''\<rparr>]\<rparr>,
                EventEndedSignal 0 \<lparr>frame = 1, predictions = Some [\<lparr>classId = Some ''car''\<rparr>]\<rparr>])
   \<and> (\<exists>s e. fst (process_phases
     \<lparr>total_frames = 1,
      event_dict = [(''car'', Event \<lparr>frame = 1, predictions = Some [\<lparr>classId = Some ''car''\<rparr>]\<rparr> 1 0)],
      active_events = [(''car'', 0)], tracker_ttl = 1\<rparr>
     \<lparr>frame = 2, predictions = Some [\<lparr>classId = Some ''dog''\<rparr>]\<rparr>
     \<lparr>uuid_calls = 1, time_calls = 1\<rparr>) = Inr (s, e)
     \<and> [EventStartedSignal 1 \<lparr>frame = 2, predictions = Some [\<lparr>classId = Some ''dog''\<rparr>]\<rparr>,
         EventEndedSignal 0 \<lparr>frame = 1, predictions = Some [\<lparr>classId = Some ''car''\<rparr>]\<rparr>]
        = map snd s @ map snd e
     \<and> (\<forall>x\<in>set (map snd s). is_started x) \<and> (\<forall>x\<in>set (map snd e). is_ended x))"
proof -
  have h: "fst (process
     \<lparr>total_frames = 1,
      event_dict = [(''car'', Event \<lparr>frame = 1, predictions = Some [\<lparr>classId = Some ''car''\<rparr>]\<rparr> 1 0)],
      active_events = [(''car'', 0)], tracker_ttl = 1\<rparr>
     \<lparr>frame = 2, predictions = Some [\<lparr>classId = Some ''dog''\<rparr>]\<rparr>
     \<lparr>uuid_calls = 1, time_calls = 1\<rparr>)
   = Inr (Some [EventStartedSignal 1 \<lparr>frame = 2, predictions = Some [\<lparr>classId = Some ''dog''\<rparr>]\<rparr>,
                EventEndedSignal 0 \<lparr>frame = 1, predictions = Some [\<lparr>classId = Some ''car''\<rparr>]\<rparr>])"
    by (simp add: tracker_eval)
  from process_starts_before_ends [OF h] h show ?thesis by blast
qed

section \<open>Dictionaries\<close>

lemma fold_delete_filter:
  "fold AList.delete ks al = filter (\<lambda>p. fst p \<notin> set ks) al"
proof (induction ks arbitrary: al)
  case Nil
  then show ?case by simp
next
  case (Cons k ks)
  have "AList.delete k al = filter (\<lambda>p. fst p \<noteq> k) al"
    by (simp add: AList.delete_eq) (rule filter_cong, auto)
  then show ?case
    by (simp add: Cons.IH conj_commute)
qed

lemma update_present_map:
  "distinct (map fst al) \<Longrightarrow> map_of al k = Some v
     \<Longrightarrow> AList.update k (f v) al = map (\<lambda>p. (fst p, if fst p = k then f (snd p) else snd p)) al"
proof (induction al)
  case Nil
  then show ?case by simp
next
  case (Cons p al)
  obtain k' v' where p: "p = (k', v')" by (cases p)
  show ?case
  proof (cases "k' = k")
    case True
    with Cons.prems p have "k \<notin> fst ` set al" "v' = v" by auto
    then have "map (\<lambda>p. (fst p, if fst p = k then f (snd p) else snd p)) al = al"
      by (intro map_idI) (auto simp: rev_image_eqI)
    with True p \<open>v' = v\<close> show ?thesis by simp
  next
    case False
    with Cons p show ?thesis by simp
  qed
qed

section \<open>The decay loop\<close>

lemma decay_step_fields [simp]:
  "total_frames (decay_step k t) = total_frames t"
  "active_events (decay_step k t) = active_events t"
  "tracker_ttl (decay_step k t) = tracker_ttl t"
  by (simp_all add: decay_step_def split: option.splits)

lemma fold_decay_step_fields [simp]:
  "total_frames (fold decay_step ks t) = total_frames t"
  "active_events (fold decay_step ks t) = active_events t"
  "tracker_ttl (fold decay_step ks t) = tracker_ttl t"
  by (induction ks arbitrary: t) simp_all

lemma decay_fields [simp]:
  "total_frames (decay t cs) = total_frames t"
  "active_events (decay t cs) = active_events t"
  "tracker_ttl (decay t cs) = tracker_ttl t"
  by (simp_all add: decay_def)

lemma fold_decay_step_dict:
  "distinct (map fst (event_dict t)) \<Longrightarrow> distinct ks \<Longrightarrow> set ks \<subseteq> fst ` set (event_dict t)
     \<Longrightarrow> event_dict (fold decay_step ks t)
         = map (\<lambda>p. (fst p, if fst p \<in> set ks then no_detection (snd p) else snd p)) (event_dict t)"
proof (induction ks arbitrary: t)
  case Nil
  then show ?case by (simp add: map_idI)
next
  case (Cons k ks)
  from Cons.prems obtain e where e: "map_of (event_dict t) k = Some e"
    by (cases "map_of (event_dict t) k") (auto simp: map_of_eq_None_iff)
  have step: "event_dict (decay_step k t)
      = map (\<lambda>p. (fst p, if fst p = k then no_detection (snd p) else snd p)) (event_dict t)"
    using e Cons.prems(1) by (simp add: decay_step_def update_present_map)
  have keys: "map fst (event_dict (decay_step k t)) = map fst (event_dict t)"
    by (simp add: step comp_def)
  have "event_dict (fold decay_step ks (decay_step k t))
      = map (\<lambda>p. (fst p, if fst p \<in> set ks then no_detection (snd p) else snd p))
          (event_dict (decay_step k t))"
    using Cons.prems by (intro Cons.IH) (auto simp: keys simp flip: set_map)
  also have "\<dots> = map (\<lambda>p. (fst p, if fst p \<in> set (k # ks) then no_detection (snd p) else snd p))
      (event_dict t)"
    using Cons.prems(2) by (auto simp: step)
  finally show ?case by simp
qed

lemma decay_event_dict:
  assumes "distinct (keys (event_dict t))"
  shows "event_dict (decay t cs)
         = map (\<lambda>p. (fst p, if fst p \<in> cs then snd p else no_detection (snd p))) (event_dict t)"
proof -
  have "event_dict (decay t cs)
      = map (\<lambda>p. (fst p, if fst p \<in> set (classes_not_in_frame t cs)
                          then no_detection (snd p) else snd p)) (event_dict t)"
    unfolding decay_def using assms
    by (intro fold_decay_step_dict) (auto simp: classes_not_in_frame_def keys_def)
  also have "\<dots> = map (\<lambda>p. (fst p, if fst p \<in> cs then snd p else no_detection (snd p))) (event_dict t)"
    by (rule map_cong) (auto simp: classes_not_in_frame_def keys_def)
  finally show ?thesis .
qed

section \<open>The starting loop\<close>

lemma is_start_event_iff:
  "is_start_event t k ev
     \<longleftrightarrow> total_frames t \<le> num_detected_frames ev \<and> k \<notin> fst ` set (active_events t)"
  by (auto simp: is_start_event_def dict_in_def keys_def)

lemma is_end_event_iff: "is_end_event t k \<longleftrightarrow> k \<in> fst ` set (active_events t)"
  by (auto simp: is_end_event_def dict_in_def keys_def)

lemma is_start_event_update:
  "k' \<noteq> k \<Longrightarrow>
     is_start_event (t\<lparr>active_events := AList.update k eid (active_events t)\<rparr>) k' ev
       = is_start_event t k' ev"
  by (auto simp: is_start_event_def dict_in_def keys_def AList.update_keys)

lemma starting_loop_effect:
  assumes "distinct (map fst items)"
    and "starting_loop items t w events = (evs, t', w')"
  shows "map fst evs
           = map fst events @ map fst (filter (\<lambda>p. is_start_event t (fst p) (snd p)) items)
       \<and> event_dict t' = event_dict t \<and> total_frames t' = total_frames t
       \<and> tracker_ttl t' = tracker_ttl t
       \<and> set (map fst (active_events t'))
           = set (map fst (active_events t))
             \<union> set (map fst (filter (\<lambda>p. is_start_event t (fst p) (snd p)) items))
       \<and> (distinct (map fst (active_events t)) \<longrightarrow> distinct (map fst (active_events t')))
       \<and> (\<forall>k. k \<notin> fst ` set items \<longrightarrow> map_of (active_events t') k = map_of (active_events t) k)
       \<and> (\<forall>k. map_of (active_events t) k \<noteq> None \<longrightarrow>
              map_of (active_events t') k = map_of (active_events t) k)"
  using assms
proof (induction items t w events arbitrary: evs t' w' rule: starting_loop.induct)
  case (1 t w events)
  then show ?case by simp
next
  case (2 k ev items t w events)
  show ?case
  proof (cases "is_start_event t k ev")
    case True
    let ?t1 = "t\<lparr>active_events := AList.update k (uuid_calls w) (active_events t)\<rparr>"
    have ne: "fst p \<noteq> k" if "p \<in> set items" for p
      using "2.prems"(1) that by force
    have same: "filter (\<lambda>p. is_start_event ?t1 (fst p) (snd p)) items
        = filter (\<lambda>p. is_start_event t (fst p) (snd p)) items"
      by (intro filter_cong) (simp_all add: is_start_event_update ne)
    have notin: "map_of (active_events t) k = None"
      using True by (simp add: is_start_event_iff map_of_eq_None_iff)
    from True "2.prems" have
      "starting_loop items ?t1 (w\<lparr>uuid_calls := Suc (uuid_calls w)\<rparr>)
         (events @ [(k, EventStartedSignal (uuid_calls w) (detection ev))]) = (evs, t', w')"
      by (simp add: uuid4_def)
    from "2.IH"(1) [OF True _ _ this] "2.prems"(1) True
    show ?thesis
      using notin
      by (auto simp: same uuid4_def AList.update_keys AList.distinct_update AList.update_conv'
          AList.dom_update)
  next
    case False
    with "2.prems" have "starting_loop items t w events = (evs, t', w')" by simp
    from "2.IH"(2) [OF False _ this] "2.prems"(1) False
    show ?thesis by auto
  qed
qed

section \<open>The ending loop\<close>

lemma is_end_event_delete:
  "k' \<noteq> k \<Longrightarrow>
     is_end_event (t\<lparr>active_events := AList.delete k (active_events t)\<rparr>) k' = is_end_event t k'"
  by (auto simp: is_end_event_def dict_in_def keys_def AList.delete_keys)

lemma ending_loop_effect:
  assumes "distinct (map fst items)"
    and "ending_loop items t events dels = (evs, dels', t')"
  shows "dels' = dels @ map fst (filter (\<lambda>p. is_expired (snd p)) items)
       \<and> map fst evs
           = map fst events
             @ map fst (filter (\<lambda>p. is_expired (snd p) \<and> is_end_event t (fst p)) items)
       \<and> event_dict t' = event_dict t \<and> total_frames t' = total_frames t
       \<and> tracker_ttl t' = tracker_ttl t
       \<and> map fst (active_events t')
           = filter (\<lambda>k. k \<notin> fst ` set (filter (\<lambda>p. is_expired (snd p)) items))
               (map fst (active_events t))
       \<and> (\<forall>k. k \<notin> fst ` set (filter (\<lambda>p. is_expired (snd p)) items) \<longrightarrow>
              map_of (active_events t') k = map_of (active_events t) k)"
  using assms
proof (induction items t events dels arbitrary: evs dels' t' rule: ending_loop.induct)
  case (1 t events del_events)
  then show ?case by simp
next
  case (2 k ev items t events del_events)
  show ?case
  proof (cases "is_expired ev")
    case False
    with "2.prems" have "ending_loop items t events del_events = (evs, dels', t')" by simp
    from "2.IH"(1) [OF _ _ this] "2.prems"(1) False
    show ?thesis by auto
  next
    case True
    show ?thesis
    proof (cases "is_end_event t k")
      case no: False
      with True "2.prems" have "ending_loop items t events (del_events @ [k]) = (evs, dels', t')"
        by simp
      from "2.IH"(4) [OF _ no _ this] "2.prems"(1) True no
      have ih: "dels' = (del_events @ [k]) @ map fst (filter (\<lambda>p. is_expired (snd p)) items)"
        "map fst evs = map fst events
             @ map fst (filter (\<lambda>p. is_expired (snd p) \<and> is_end_event t (fst p)) items)"
        "event_dict t' = event_dict t" "total_frames t' = total_frames t"
        "tracker_ttl t' = tracker_ttl t"
        "map fst (active_events t')
           = filter (\<lambda>k. k \<notin> fst ` set (filter (\<lambda>p. is_expired (snd p)) items))
               (map fst (active_events t))"
        "\<forall>k. k \<notin> fst ` set (filter (\<lambda>p. is_expired (snd p)) items) \<longrightarrow>
              map_of (active_events t') k = map_of (active_events t) k"
        by auto
      have knot: "k \<notin> set (map fst (active_events t))"
        using no by (simp add: is_end_event_iff)
      have "filter (\<lambda>k'. k' \<notin> fst ` set (filter (\<lambda>p. is_expired (snd p)) items))
               (map fst (active_events t))
          = filter (\<lambda>k'. k' \<notin> fst ` set (filter (\<lambda>p. is_expired (snd p)) ((k, ev) # items)))
               (map fst (active_events t))"
        using knot True by (intro filter_cong) auto
      with ih True no show ?thesis by auto
    next
      case yes: True
      then obtain eid where eid: "map_of (active_events t) k = Some eid"
        by (auto simp: is_end_event_lookup)
      let ?t1 = "t\<lparr>active_events := AList.delete k (active_events t)\<rparr>"
      from True yes eid "2.prems" have
        run: "ending_loop items ?t1 (events @ [(k, EventEndedSignal eid (detection ev))])
           (del_events @ [k]) = (evs, dels', t')"
        by simp
      have ne: "fst p \<noteq> k" if "p \<in> set items" for p
        using "2.prems"(1) that by force
      have same: "filter (\<lambda>p. is_expired (snd p) \<and> is_end_event ?t1 (fst p)) items
          = filter (\<lambda>p. is_expired (snd p) \<and> is_end_event t (fst p)) items"
        by (intro filter_cong) (simp_all add: is_end_event_delete ne)
      from "2.IH"(3) [OF _ yes eid _ run] "2.prems"(1) True
      have ih: "dels' = (del_events @ [k]) @ map fst (filter (\<lambda>p. is_expired (snd p)) items)"
        "map fst evs = map fst (events @ [(k, EventEndedSignal eid (detection ev))])
             @ map fst (filter (\<lambda>p. is_expired (snd p) \<and> is_end_event t (fst p)) items)"
        "event_dict t' = event_dict t" "total_frames t' = total_frames t"
        "tracker_ttl t' = tracker_ttl t"
        "map fst (active_events t')
           = filter (\<lambda>k. k \<notin> fst ` set (filter (\<lambda>p. is_expired (snd p)) items))
               (map fst (AList.delete k (active_events t)))"
        "\<forall>k'. k' \<notin> fst ` set (filter (\<lambda>p. is_expired (snd p)) items) \<longrightarrow>
              map_of (active_events t') k' = map_of (AList.delete k (active_events t)) k'"
        by (auto simp: same)
      have "filter (\<lambda>k'. k' \<notin> fst ` set (filter (\<lambda>p. is_expired (snd p)) items))
               (map fst (AList.delete k (active_events t)))
          = filter (\<lambda>k'. k' \<notin> fst ` set (filter (\<lambda>p. is_expired (snd p)) ((k, ev) # items)))
               (map fst (active_events t))"
        using True by (auto simp: AList.delete_keys removeAll_filter_not_eq intro: filter_cong)
      with ih True yes show ?thesis by (auto simp: AList.delete_conv')
    qed
  qed
qed

lemma get_starting_events_effect:
  assumes "distinct (map fst (event_dict t))"
    and "get_starting_events t w = (evs, t', w')"
  shows "map fst evs = map fst (filter (\<lambda>p. is_start_event t (fst p) (snd p)) (event_dict t))"
    and "event_dict t' = event_dict t" and "total_frames t' = total_frames t"
    and "tracker_ttl t' = tracker_ttl t"
    and "set (map fst (active_events t'))
           = set (map fst (active_events t))
             \<union> set (map fst (filter (\<lambda>p. is_start_event t (fst p) (snd p)) (event_dict t)))"
    and "distinct (map fst (active_events t)) \<Longrightarrow> distinct (map fst (active_events t'))"
    and "map_of (active_events t) k \<noteq> None \<Longrightarrow>
              map_of (active_events t') k = map_of (active_events t) k"
  using starting_loop_effect [OF assms(1) assms(2) [unfolded get_starting_events_def]]
  by simp_all

lemma get_ending_events_effect:
  assumes d: "distinct (map fst (event_dict t))"
    and g: "get_ending_events t = (evs, t')"
  shows "map fst evs
           = map fst (filter (\<lambda>p. is_expired (snd p) \<and> is_end_event t (fst p)) (event_dict t))"
    and "event_dict t' = filter (\<lambda>p. \<not> is_expired (snd p)) (event_dict t)"
    and "total_frames t' = total_frames t" and "tracker_ttl t' = tracker_ttl t"
    and "map fst (active_events t')
           = filter (\<lambda>k. k \<notin> fst ` set (filter (\<lambda>p. is_expired (snd p)) (event_dict t)))
               (map fst (active_events t))"
    and "k \<notin> fst ` set (filter (\<lambda>p. is_expired (snd p)) (event_dict t)) \<Longrightarrow>
              map_of (active_events t') k = map_of (active_events t) k"
proof -
  obtain dels t1 where l: "ending_loop (event_dict t) t [] [] = (evs, dels, t1)"
    and t': "t' = t1\<lparr>event_dict := fold AList.delete dels (event_dict t1)\<rparr>"
    using g by (auto simp: get_ending_events_def split: prod.splits)
  note eff = ending_loop_effect [OF d l]
  from eff show "map fst evs
           = map fst (filter (\<lambda>p. is_expired (snd p) \<and> is_end_event t (fst p)) (event_dict t))"
    by simp
  from eff t' show "total_frames t' = total_frames t" "tracker_ttl t' = tracker_ttl t"
    by simp_all
  from eff t' show "map fst (active_events t')
           = filter (\<lambda>k. k \<notin> fst ` set (filter (\<lambda>p. is_expired (snd p)) (event_dict t)))
               (map fst (active_events t))"
    by simp
  from eff t' show "k \<notin> fst ` set (filter (\<lambda>p. is_expired (snd p)) (event_dict t)) \<Longrightarrow>
              map_of (active_events t') k = map_of (active_events t) k"
    by simp
  have dels: "dels = map fst (filter (\<lambda>p. is_expired (snd p)) (event_dict t))"
    using eff by simp
  have "event_dict t' = filter (\<lambda>p. fst p \<notin> set dels) (event_dict t)"
    using eff t' by (simp add: fold_delete_filter)
  also have "\<dots> = filter (\<lambda>p. \<not> is_expired (snd p)) (event_dict t)"
  proof (rule filter_cong [OF refl])
    fix p assume p: "p \<in> set (event_dict t)"
    show "(fst p \<notin> set dels) = (\<not> is_expired (snd p))"
    proof
      assume "fst p \<notin> set dels"
      with p show "\<not> is_expired (snd p)" by (auto simp: dels)
    next
      assume ne: "\<not> is_expired (snd p)"
      show "fst p \<notin> set dels"
      proof
        assume "fst p \<in> set dels"
        then obtain q where q: "q \<in> set (event_dict t)" "is_expired (snd q)" "fst q = fst p"
          by (auto simp: dels)
        with d p have "q = p"
          by (metis eq_key_imp_eq_value prod.collapse)
        with q ne show False by simp
      qed
    qed
  qed
  finally show "event_dict t' = filter (\<lambda>p. \<not> is_expired (snd p)) (event_dict t)" .
qed

section \<open>The loop over the predictions\<close>

lemma update_loop_fields:
  "update_loop d ps cs t w = (err, cs', t', w') \<Longrightarrow>
     total_frames t' = total_frames t \<and> active_events t' = active_events t
     \<and> tracker_ttl t' = tracker_ttl t"
proof (induction d ps cs t w rule: update_loop.induct)
  case (1 d cs t w)
  then show ?case by simp
next
  case (2 d p ps cs t w)
  then show ?case
    by (auto simp: time_time_def split: option.splits)
qed

lemma update_loop_keys:
  "update_loop d ps cs t w = (err, cs', t', w') \<Longrightarrow>
     set (map fst (event_dict t)) \<subseteq> set (map fst (event_dict t'))
     \<and> (distinct (map fst (event_dict t)) \<longrightarrow> distinct (map fst (event_dict t')))"
proof (induction d ps cs t w rule: update_loop.induct)
  case (1 d cs t w)
  then show ?case by simp
next
  case (2 d p ps cs t w)
  show ?case
  proof (cases "classId p")
    case None
    with 2 show ?thesis by simp
  next
    case (Some c)
    show ?thesis
    proof (cases "map_of (event_dict t) c")
      case None
      let ?t1 = "t\<lparr>event_dict := AList.update c (Event d (tracker_ttl t) (time_calls w)) (event_dict t)\<rparr>"
      from "2.prems" Some None have
        "update_loop d ps (insert c cs) ?t1 (w\<lparr>time_calls := Suc (time_calls w)\<rparr>) = (err, cs', t', w')"
        by (simp add: time_time_def)
      from "2.IH"(1) [OF Some None _ this] show ?thesis
        by (auto simp: time_time_def AList.dom_update AList.distinct_update)
    next
      case (Some e)
      let ?t1 = "t\<lparr>event_dict := AList.update c (new_detection e d) (event_dict t)\<rparr>"
      from "2.prems" \<open>classId p = Some c\<close> Some have
        "update_loop d ps (insert c cs) ?t1 w = (err, cs', t', w')"
        by simp
      from "2.IH"(2) [OF \<open>classId p = Some c\<close> Some this] show ?thesis
        by (auto simp: AList.dom_update AList.distinct_update)
    qed
  qed
qed

lemma update_loop_ok:
  assumes "list_all (\<lambda>p. classId p \<noteq> None) ps"
    and "update_loop d ps cs t w = (err, cs', t', w')"
  shows "err = None \<and> cs' = cs \<union> set (List.map_filter classId ps)
       \<and> set (map fst (event_dict t'))
           = set (map fst (event_dict t)) \<union> set (List.map_filter classId ps)"
  using assms
proof (induction d ps cs t w rule: update_loop.induct)
  case (1 d cs t w)
  then show ?case by (simp add: List.map_filter_simps)
next
  case (2 d p ps cs t w)
  from "2.prems"(1) obtain c where c: "classId p = Some c" by auto
  show ?case
  proof (cases "map_of (event_dict t) c")
    case None
    let ?t1 = "t\<lparr>event_dict := AList.update c (Event d (tracker_ttl t) (time_calls w)) (event_dict t)\<rparr>"
    from "2.prems" c None have
      "update_loop d ps (insert c cs) ?t1 (w\<lparr>time_calls := Suc (time_calls w)\<rparr>) = (err, cs', t', w')"
      by (simp add: time_time_def)
    from "2.IH"(1) [OF c None _ _ this] "2.prems"(1) show ?thesis
      by (auto simp: time_time_def AList.dom_update List.map_filter_simps c)
  next
    case (Some e)
    let ?t1 = "t\<lparr>event_dict := AList.update c (new_detection e d) (event_dict t)\<rparr>"
    from "2.prems" c Some have "update_loop d ps (insert c cs) ?t1 w = (err, cs', t', w')"
      by simp
    from "2.IH"(2) [OF c Some _ this] "2.prems"(1) show ?thesis
      by (auto simp: AList.dom_update List.map_filter_simps c)
  qed
qed

lemma detected_new_detection:
  "detected (new_detection e d) d n = detected e d (Suc n)"
  by (simp add: detected_def new_detection_def reset_ttl_def)

lemma update_loop_lookup:
  assumes "list_all (\<lambda>p. classId p \<noteq> None) ps"
    and "update_loop d ps cs t w = (err, cs', t', w')"
  shows "case map_of (event_dict t) c of
           Some e \<Rightarrow>
             map_of (event_dict t') c
               = Some (detected e d (count_list (List.map_filter classId ps) c))
         | None \<Rightarrow>
             (if count_list (List.map_filter classId ps) c = 0
              then map_of (event_dict t') c = None
              else \<exists>now. map_of (event_dict t') c
                     = Some \<lparr>detection = d,
                             num_detected_frames = int (count_list (List.map_filter classId ps) c),
                             creation_time = now, ttl = tracker_ttl t,
                             current_ttl = tracker_ttl t\<rparr>)"
  using assms
proof (induction d ps cs t w rule: update_loop.induct)
  case (1 d cs t w)
  then show ?case by (simp add: List.map_filter_simps detected_def split: option.splits)
next
  case (2 d p ps cs t w)
  from "2.prems"(1) obtain c0 where c0: "classId p = Some c0" by auto
  from "2.prems"(1) have rest: "list_all (\<lambda>p. classId p \<noteq> None) ps" by simp
  let ?n = "count_list (List.map_filter classId ps) c"
  show ?case
  proof (cases "map_of (event_dict t) c0")
    case None
    let ?e0 = "Event d (tracker_ttl t) (time_calls w)"
    let ?t1 = "t\<lparr>event_dict := AList.update c0 ?e0 (event_dict t)\<rparr>"
    from "2.prems" c0 None have
      run: "update_loop d ps (insert c0 cs) ?t1 (w\<lparr>time_calls := Suc (time_calls w)\<rparr>) = (err, cs', t', w')"
      by (simp add: time_time_def)
    note ih = "2.IH"(1) [OF c0 None _ rest run, simplified time_time_def, simplified]
    show ?thesis
    proof (cases "c = c0")
      case True
      with ih have "map_of (event_dict t') c = Some (detected ?e0 d ?n)"
        by (simp add: AList.update_conv')
      with True None c0 show ?thesis
        by (auto simp: List.map_filter_simps detected_def Event_def)
    next
      case False
      with ih c0 show ?thesis
        by (auto simp: AList.update_conv' List.map_filter_simps split: option.splits if_splits)
    qed
  next
    case (Some e)
    let ?t1 = "t\<lparr>event_dict := AList.update c0 (new_detection e d) (event_dict t)\<rparr>"
    from "2.prems" c0 Some have run: "update_loop d ps (insert c0 cs) ?t1 w = (err, cs', t', w')"
      by simp
    note ih = "2.IH"(2) [OF c0 Some rest run, simplified]
    show ?thesis
    proof (cases "c = c0")
      case True
      with ih have "map_of (event_dict t') c = Some (detected (new_detection e d) d ?n)"
        by (simp add: AList.update_conv')
      with True Some c0 show ?thesis
        by (simp add: List.map_filter_simps detected_new_detection)
    next
      case False
      with ih c0 show ?thesis
        by (auto simp: AList.update_conv' List.map_filter_simps split: option.splits if_splits)
    qed
  qed
qed

section \<open>One call on a well-formed payload\<close>

lemma map_of_map_snd:
  "map_of (map (\<lambda>p. (fst p, f (fst p) (snd p))) al) c = map_option (f c) (map_of al c)"
  by (induction al) auto

lemma key_in_filter:
  "distinct (map fst al) \<Longrightarrow>
     c \<in> fst ` set (filter (\<lambda>p. P (fst p) (snd p)) al) \<longleftrightarrow> (\<exists>v. map_of al c = Some v \<and> P c v)"
  by (auto simp: image_iff)

lemma map_of_filter_snd:
  "distinct (map fst al) \<Longrightarrow>
     map_of (filter (\<lambda>p. P (snd p)) al) c
       = (case map_of al c of Some v \<Rightarrow> if P v then Some v else None | None \<Rightarrow> None)"
proof (induction al)
  case Nil
  then show ?case by simp
next
  case (Cons p al)
  then show ?case
    by (cases p) (auto split: option.splits simp: map_of_eq_None_iff image_iff dest: map_of_SomeD)
qed

lemma process_phases_class:
  assumes wf: "well_formed d" and dist: "distinct (map fst (event_dict t))"
    and ph: "process_phases t d w = (r, t', w')"
  shows "\<exists>s e ev. r = Inr (s, e) \<and> seen t d c ev
       \<and> (c \<in> fst ` set s \<longleftrightarrow>
            (\<exists>e2. ev = Some e2 \<and> total_frames t \<le> num_detected_frames e2)
            \<and> map_of (active_events t) c = None)
       \<and> (c \<in> fst ` set e \<longleftrightarrow>
            (\<exists>e2. ev = Some e2 \<and> is_expired e2)
            \<and> (map_of (active_events t) c \<noteq> None \<or> c \<in> fst ` set s))
       \<and> map_of (event_dict t') c
            = (case ev of Some e2 \<Rightarrow> if is_expired e2 then None else Some e2 | None \<Rightarrow> None)
       \<and> (map_of (active_events t') c \<noteq> None \<longleftrightarrow>
            (map_of (active_events t) c \<noteq> None \<or> c \<in> fst ` set s)
            \<and> \<not> (\<exists>e2. ev = Some e2 \<and> is_expired e2))
       \<and> (map_of (active_events t) c \<noteq> None \<and> \<not> (\<exists>e2. ev = Some e2 \<and> is_expired e2) \<longrightarrow>
            map_of (active_events t') c = map_of (active_events t) c)"
proof -
  from wf obtain ps where ps: "predictions d = Some ps"
    and all: "list_all (\<lambda>p. classId p \<noteq> None) ps"
    by (auto simp: well_formed_def split: option.splits)
  have fc: "frame_classes d = List.map_filter classId ps"
    by (simp add: frame_classes_def ps)
  obtain err cs t1 w1 where up: "update_loop d ps {} t w = (err, cs, t1, w1)"
    by (metis prod_cases4)
  from update_loop_ok [OF all up] have err: "err = None" and cs: "cs = set (frame_classes d)"
    by (simp_all add: fc)
  note f1 = update_loop_fields [OF up]
  from update_loop_keys [OF up] dist have d1: "distinct (map fst (event_dict t1))" by simp
  note look = update_loop_lookup [OF all up, of c, folded fc]
  let ?t2 = "decay t1 cs"
  have ed2: "event_dict ?t2
      = map (\<lambda>p. (fst p, if fst p \<in> cs then snd p else no_detection (snd p))) (event_dict t1)"
    using d1 by (simp add: decay_event_dict keys_def)
  have d2: "distinct (map fst (event_dict ?t2))"
    using d1 by (simp add: ed2 comp_def)
  define ev where "ev = map_of (event_dict ?t2) c"
  have ev_eq: "ev = map_option (\<lambda>e. if c \<in> cs then e else no_detection e) (map_of (event_dict t1) c)"
    unfolding ev_def ed2 by (rule map_of_map_snd [where f = "\<lambda>k e. if k \<in> cs then e else no_detection e"])
  have seen: "seen t d c ev"
    using look unfolding seen_def ev_eq cs
    by (auto simp: count_list_0_iff detected_def split: option.splits if_splits)
  obtain s t3 w3 where st: "get_starting_events ?t2 w1 = (s, t3, w3)"
    by (metis prod_cases3)
  obtain e t4 where en: "get_ending_events t3 = (e, t4)"
    by (metis surj_pair)
  note se = get_starting_events_effect [OF d2 st]
  have d3: "distinct (map fst (event_dict t3))" using d2 se(2) by simp
  note ee = get_ending_events_effect [OF d3 en]
  from ph ps up err st en have r: "r = Inr (s, e)" and t': "t' = t4"
    by (simp_all add: process_phases_def)
  have act2: "active_events t1 = active_events t" "total_frames t1 = total_frames t"
    using f1 by simp_all
  have in_s: "c \<in> fst ` set s \<longleftrightarrow>
        (\<exists>e2. ev = Some e2 \<and> total_frames t \<le> num_detected_frames e2)
        \<and> map_of (active_events t) c = None"
  proof -
    have "fst ` set s = set (map fst s)" by simp
    also have "\<dots> = fst ` set (filter (\<lambda>p. is_start_event ?t2 (fst p) (snd p)) (event_dict ?t2))"
      by (simp add: se(1))
    finally show ?thesis
      using key_in_filter [OF d2, of c "is_start_event ?t2"]
      by (auto simp: ev_def is_start_event_iff act2 map_of_eq_None_iff)
  qed
  have act3: "map_of (active_events t3) c \<noteq> None
      \<longleftrightarrow> map_of (active_events t) c \<noteq> None \<or> c \<in> fst ` set s"
  proof -
    have "map_of (active_events t3) c \<noteq> None \<longleftrightarrow> c \<in> set (map fst (active_events t3))"
      by (simp add: map_of_eq_None_iff)
    also have "\<dots> \<longleftrightarrow> c \<in> set (map fst (active_events t)) \<or> c \<in> set (map fst s)"
      unfolding se(5) se(1) by (simp add: act2)
    finally show ?thesis by (simp add: map_of_eq_None_iff)
  qed
  have exp: "c \<in> fst ` set (filter (\<lambda>p. is_expired (snd p)) (event_dict t3))
      \<longleftrightarrow> (\<exists>e2. ev = Some e2 \<and> is_expired e2)"
    using key_in_filter [OF d3, of c "\<lambda>k. is_expired"] by (simp add: se(2) ev_def)
  have in_e: "c \<in> fst ` set e \<longleftrightarrow>
        (\<exists>e2. ev = Some e2 \<and> is_expired e2)
        \<and> (map_of (active_events t) c \<noteq> None \<or> c \<in> fst ` set s)"
  proof -
    have "fst ` set e = set (map fst e)" by simp
    also have "\<dots> = fst ` set (filter (\<lambda>p. is_expired (snd p) \<and> is_end_event t3 (fst p)) (event_dict t3))"
      by (simp add: ee(1))
    finally show ?thesis
      using key_in_filter [OF d3, of c "\<lambda>k v. is_expired v \<and> is_end_event t3 k"] act3
      by (auto simp: ev_def se(2) is_end_event_lookup)
  qed
  have ed4: "map_of (event_dict t4) c
      = (case ev of Some e2 \<Rightarrow> if is_expired e2 then None else Some e2 | None \<Rightarrow> None)"
    using map_of_filter_snd [OF d3, of "\<lambda>v. \<not> is_expired v" c]
    by (auto simp: ee(2) se(2) ev_def split: option.splits)
  have act4: "map_of (active_events t4) c \<noteq> None \<longleftrightarrow>
        (map_of (active_events t) c \<noteq> None \<or> c \<in> fst ` set s)
        \<and> \<not> (\<exists>e2. ev = Some e2 \<and> is_expired e2)"
  proof -
    have "map_of (active_events t4) c \<noteq> None \<longleftrightarrow> c \<in> set (map fst (active_events t4))"
      by (simp add: map_of_eq_None_iff)
    also have "\<dots> \<longleftrightarrow> c \<in> set (map fst (active_events t3))
        \<and> c \<notin> fst ` set (filter (\<lambda>p. is_expired (snd p)) (event_dict t3))"
      by (simp only: ee(5) set_filter mem_Collect_eq)
    also have "\<dots> \<longleftrightarrow> map_of (active_events t3) c \<noteq> None \<and> \<not> (\<exists>e2. ev = Some e2 \<and> is_expired e2)"
      by (simp only: exp) (simp add: map_of_eq_None_iff)
    finally show ?thesis by (simp only: act3)
  qed
  have keep: "map_of (active_events t4) c = map_of (active_events t) c"
    if "map_of (active_events t) c \<noteq> None" "\<not> (\<exists>e2. ev = Some e2 \<and> is_expired e2)"
  proof -
    from that(2) have "c \<notin> fst ` set (filter (\<lambda>p. is_expired (snd p)) (event_dict t3))"
      by (simp only: exp) simp
    then have "map_of (active_events t4) c = map_of (active_events t3) c" by (rule ee(6))
    also have "\<dots> = map_of (active_events ?t2) c"
      using that(1) by (intro se(7)) (simp add: act2)
    finally show ?thesis by (simp add: act2)
  qed
  have keep': "map_of (active_events t) c \<noteq> None \<and> \<not> (\<exists>e2. ev = Some e2 \<and> is_expired e2) \<longrightarrow>
            map_of (active_events t4) c = map_of (active_events t) c"
    using keep by (intro impI) (elim conjE)
  show ?thesis
    unfolding t'
    by (intro exI [of _ s] exI [of _ e] exI [of _ ev] conjI r seen in_s in_e ed4 act4 keep')
qed

lemma process_phases_classE:
  assumes "well_formed d" and "distinct (map fst (event_dict t))"
    and "process_phases t d w = (r, t', w')"
  obtains s e ev where "r = Inr (s, e)" and "seen t d c ev"
    and "c \<in> fst ` set s \<longleftrightarrow>
            (\<exists>e2. ev = Some e2 \<and> total_frames t \<le> num_detected_frames e2)
            \<and> map_of (active_events t) c = None"
    and "c \<in> fst ` set e \<longleftrightarrow>
            (\<exists>e2. ev = Some e2 \<and> is_expired e2)
            \<and> (map_of (active_events t) c \<noteq> None \<or> c \<in> fst ` set s)"
    and "map_of (event_dict t') c
            = (case ev of Some e2 \<Rightarrow> if is_expired e2 then None else Some e2 | None \<Rightarrow> None)"
    and "map_of (active_events t') c \<noteq> None \<longleftrightarrow>
            (map_of (active_events t) c \<noteq> None \<or> c \<in> fst ` set s)
            \<and> \<not> (\<exists>e2. ev = Some e2 \<and> is_expired e2)"
    and "map_of (active_events t) c \<noteq> None \<and> \<not> (\<exists>e2. ev = Some e2 \<and> is_expired e2) \<longrightarrow>
            map_of (active_events t') c = map_of (active_events t) c"
  using process_phases_class [OF assms, of c]
  apply (elim exE conjE)
  apply (rule that)
        apply assumption+
  done

section \<open>The tracker after a call\<close>

lemma set_update_cases:
  "p \<in> set (AList.update k v al) \<Longrightarrow> p = (k, v) \<or> p \<in> set al"
  by (induction al) (auto split: if_splits)

lemma update_loop_events:
  assumes "update_loop d ps cs t w = (err, cs', t', w')"
    and "\<forall>p\<in>set (event_dict t). Q (snd p)"
    and "\<And>e. Q e \<Longrightarrow> Q (new_detection e d)"
    and "\<And>now. Q (Event d (tracker_ttl t) now)"
  shows "\<forall>p\<in>set (event_dict t'). Q (snd p)"
  using assms
proof (induction d ps cs t w rule: update_loop.induct)
  case (1 d cs t w)
  then show ?case by simp
next
  case (2 d p ps cs t w)
  show ?case
  proof (cases "classId p")
    case None
    with 2 show ?thesis by simp
  next
    case (Some c)
    show ?thesis
    proof (cases "map_of (event_dict t) c")
      case None
      let ?t1 = "t\<lparr>event_dict := AList.update c (Event d (tracker_ttl t) (time_calls w)) (event_dict t)\<rparr>"
      from "2.prems"(1) Some None have
        run: "update_loop d ps (insert c cs) ?t1 (w\<lparr>time_calls := Suc (time_calls w)\<rparr>) = (err, cs', t', w')"
        by (simp add: time_time_def)
      have q1: "\<forall>p\<in>set (event_dict ?t1). Q (snd p)"
        using "2.prems"(2) "2.prems"(4) by (auto dest!: set_update_cases)
      show ?thesis
        by (rule "2.IH"(1) [OF Some None _ run q1 "2.prems"(3)])
          (simp_all add: time_time_def "2.prems"(4))
    next
      case e: (Some e)
      let ?t1 = "t\<lparr>event_dict := AList.update c (new_detection e d) (event_dict t)\<rparr>"
      from "2.prems"(1) Some e have run: "update_loop d ps (insert c cs) ?t1 w = (err, cs', t', w')"
        by simp
      from map_of_SomeD [OF e] "2.prems"(2) have "Q (snd (c, e))" by blast
      then have "Q e" by simp
      then have q1: "\<forall>p\<in>set (event_dict ?t1). Q (snd p)"
        using "2.prems"(2) "2.prems"(3) by (auto dest!: set_update_cases)
      show ?thesis
        by (rule "2.IH"(2) [OF Some e run q1 "2.prems"(3)]) (simp_all add: "2.prems"(4))
    qed
  qed
qed

lemma process_phases_shape:
  assumes dist: "distinct (map fst (event_dict t))"
    and ph: "process_phases t d w = (r, t', w')"
  shows "distinct (map fst (event_dict t'))" and "total_frames t' = total_frames t"
    and "tracker_ttl t' = tracker_ttl t"
    and "\<not> well_formed d \<Longrightarrow>
           (\<exists>err. r = Inl err) \<and> active_events t' = active_events t
           \<and> set (map fst (event_dict t)) \<subseteq> set (map fst (event_dict t'))"
    and "well_formed d \<Longrightarrow> \<forall>p\<in>set (event_dict t'). \<not> is_expired (snd p)"
proof -
  have all: "distinct (map fst (event_dict t')) \<and> total_frames t' = total_frames t
    \<and> tracker_ttl t' = tracker_ttl t
    \<and> (\<not> well_formed d \<longrightarrow>
           (\<exists>err. r = Inl err) \<and> active_events t' = active_events t
           \<and> set (map fst (event_dict t)) \<subseteq> set (map fst (event_dict t')))
    \<and> (well_formed d \<longrightarrow> (\<forall>p\<in>set (event_dict t'). \<not> is_expired (snd p)))"
  proof (cases "predictions d")
    case None
    with ph dist show ?thesis by (auto simp: process_phases_def well_formed_def)
  next
    case (Some ps)
    obtain err cs t1 w1 where up: "update_loop d ps {} t w = (err, cs, t1, w1)"
      by (metis prod_cases4)
    note f1 = update_loop_fields [OF up]
    from update_loop_keys [OF up] dist have d1: "distinct (map fst (event_dict t1))"
      and sub: "set (map fst (event_dict t)) \<subseteq> set (map fst (event_dict t1))" by simp_all
    show ?thesis
    proof (cases err)
      case e: (Some x)
      have "\<not> well_formed d"
      proof
        assume "well_formed d"
        then have "list_all (\<lambda>p. classId p \<noteq> None) ps" by (simp add: well_formed_def Some)
        from update_loop_ok [OF this up] e show False by simp
      qed
      with ph Some up e f1 d1 sub show ?thesis by (auto simp: process_phases_def)
    next
      case None
      let ?t2 = "decay t1 cs"
      have ed2: "event_dict ?t2
          = map (\<lambda>p. (fst p, if fst p \<in> cs then snd p else no_detection (snd p))) (event_dict t1)"
        using d1 by (simp add: decay_event_dict keys_def)
      have d2: "distinct (map fst (event_dict ?t2))"
        using d1 by (simp add: ed2 comp_def)
      obtain s t3 w3 where st: "get_starting_events ?t2 w1 = (s, t3, w3)"
        by (metis prod_cases3)
      obtain e t4 where en: "get_ending_events t3 = (e, t4)"
        by (metis surj_pair)
      note se = get_starting_events_effect [OF d2 st]
      have d3: "distinct (map fst (event_dict t3))" using d2 se(2) by simp
      note ee = get_ending_events_effect [OF d3 en]
      from ph Some up None st en have r: "r = Inr (s, e)" and t': "t' = t4"
        by (simp_all add: process_phases_def)
      have wfd: "well_formed d"
      proof (rule ccontr)
        assume nw: "\<not> well_formed d"
        have "\<And>ps cs t w err cs' t' w'. update_loop d ps cs t w = (err, cs', t', w') \<Longrightarrow> err = None
            \<Longrightarrow> list_all (\<lambda>p. classId p \<noteq> None) ps"
        proof -
          fix ps cs t w err cs' t' w'
          show "update_loop d ps cs t w = (err, cs', t', w') \<Longrightarrow> err = None
            \<Longrightarrow> list_all (\<lambda>p. classId p \<noteq> None) ps"
            by (induction d ps cs t w rule: update_loop.induct)
              (auto simp: time_time_def split: option.splits)
        qed
        from this [OF up None] nw Some show False by (simp add: well_formed_def)
      qed
      have "distinct (map fst (event_dict t4))"
        using d3 by (simp add: ee(2) distinct_map_filter)
      moreover have "\<forall>p\<in>set (event_dict t4). \<not> is_expired (snd p)"
        by (simp add: ee(2))
      ultimately show ?thesis
        using t' f1 se(3,4) ee(3,4) wfd by simp
    qed
  qed
  from all show "distinct (map fst (event_dict t'))" and "total_frames t' = total_frames t"
    and "tracker_ttl t' = tracker_ttl t" by simp_all
  from all show "\<not> well_formed d \<Longrightarrow>
           (\<exists>err. r = Inl err) \<and> active_events t' = active_events t
           \<and> set (map fst (event_dict t)) \<subseteq> set (map fst (event_dict t'))" by simp
  from all show "well_formed d \<Longrightarrow> \<forall>p\<in>set (event_dict t'). \<not> is_expired (snd p)" by simp
qed

section \<open>The invariant between calls\<close>

lemma tracker_inv_init: "tracker_inv (RoIBusinessLogic n l)"
  by (simp add: tracker_inv_def RoIBusinessLogic_def)

lemma event_ok_new_detection: "event_ok l e \<Longrightarrow> event_ok l (new_detection e d)"
  by (auto simp: event_ok_def new_detection_def reset_ttl_def)

lemma event_ok_Event: "event_ok l (Event d l now)"
  by (simp add: event_ok_def Event_def)

lemma process_phases_error:
  assumes "\<not> well_formed d" and "process_phases t d w = (r, t', w')"
  shows "t' = t \<or> (\<exists>ps err cs. update_loop d ps {} t w = (Some err, cs, t', w'))"
proof (cases "predictions d")
  case None
  with assms show ?thesis by (simp add: process_phases_def)
next
  case (Some ps)
  obtain err cs t1 w1 where up: "update_loop d ps {} t w = (err, cs, t1, w1)"
    by (metis prod_cases4)
  show ?thesis
  proof (cases err)
    case None
    obtain s t3 w3 where st: "get_starting_events (decay t1 cs) w1 = (s, t3, w3)"
      by (metis prod_cases3)
    obtain e t4 where en: "get_ending_events t3 = (e, t4)"
      by (metis surj_pair)
    from assms(2) Some up None st en have "r = Inr (s, e)"
      by (simp add: process_phases_def)
    moreover have "\<exists>err. r = Inl err"
    proof (cases "distinct (map fst (event_dict t))")
      case True
      from process_phases_shape(4) [OF True assms(2) assms(1)] show ?thesis by simp
    next
      case False
      have "\<And>ps cs t w err cs' t' w'. update_loop d ps cs t w = (err, cs', t', w') \<Longrightarrow> err = None
            \<Longrightarrow> list_all (\<lambda>p. classId p \<noteq> None) ps"
      proof -
        fix ps cs t w err cs' t' w'
        show "update_loop d ps cs t w = (err, cs', t', w') \<Longrightarrow> err = None
            \<Longrightarrow> list_all (\<lambda>p. classId p \<noteq> None) ps"
          by (induction d ps cs t w rule: update_loop.induct)
            (auto simp: time_time_def split: option.splits)
      qed
      from this [OF up None] assms(1) Some show ?thesis by (simp add: well_formed_def)
    qed
    ultimately show ?thesis by simp
  next
    case e: (Some x)
    with assms(2) Some up show ?thesis by (auto simp: process_phases_def)
  qed
qed

lemma seen_event_ok:
  assumes inv: "tracker_inv t" and seen: "seen t d c (Some e2)"
  shows "ttl e2 = tracker_ttl t \<and> current_ttl e2 \<le> tracker_ttl t"
proof (cases "map_of (event_dict t) c")
  case None
  with seen show ?thesis by (auto simp: seen_def split: if_splits)
next
  case (Some e)
  then have "(c, e) \<in> set (event_dict t)" by (rule map_of_SomeD)
  with inv have "event_ok (tracker_ttl t) e"
    by (auto simp: tracker_inv_def list_all_iff)
  with seen Some show ?thesis
    by (auto simp: seen_def event_ok_def no_detection_def detected_def split: if_splits)
qed

lemma process_phases_inv:
  assumes inv: "tracker_inv t" and ph: "process_phases t d w = (r, t', w')"
  shows "tracker_inv t'"
proof -
  from inv have dist: "distinct (map fst (event_dict t))" by (simp add: tracker_inv_def)
  note shape = process_phases_shape [OF dist ph]
  show ?thesis
  proof (cases "well_formed d")
    case False
    from shape(4) [OF False] have act: "active_events t' = active_events t"
      and sub: "set (map fst (event_dict t)) \<subseteq> set (map fst (event_dict t'))" by simp_all
    have ev: "\<forall>p\<in>set (event_dict t'). event_ok (tracker_ttl t) (snd p)"
      using process_phases_error [OF False ph]
    proof
      assume "t' = t"
      with inv show ?thesis by (simp add: tracker_inv_def list_all_iff)
    next
      assume "\<exists>ps err cs. update_loop d ps {} t w = (Some err, cs, t', w')"
      then obtain ps err cs where up: "update_loop d ps {} t w = (Some err, cs, t', w')"
        by blast
      show ?thesis
      proof (rule update_loop_events [OF up])
        from inv show "\<forall>p\<in>set (event_dict t). event_ok (tracker_ttl t) (snd p)"
          by (simp add: tracker_inv_def list_all_iff)
      qed (simp_all add: event_ok_new_detection event_ok_Event)
    qed
    from inv have "set (map fst (active_events t)) \<subseteq> set (map fst (event_dict t))"
      by (simp add: tracker_inv_def)
    with sub have sub': "set (map fst (active_events t')) \<subseteq> set (map fst (event_dict t'))"
      unfolding act by blast
    from inv have "tracker_ttl t \<le> 0 \<longrightarrow> active_events t' = []"
      by (simp add: tracker_inv_def act)
    with sub' shape(1,3) ev show ?thesis
      by (simp add: tracker_inv_def list_all_iff)
  next
    case True
    have look: "ttl e' = tracker_ttl t \<and> current_ttl e' \<le> tracker_ttl t \<and> \<not> is_expired e'"
      if "map_of (event_dict t') c = Some e'" for c e'
    proof -
      obtain s e ev where "r = Inr (s, e)" and seen: "seen t d c ev"
        and "c \<in> fst ` set s \<longleftrightarrow>
            (\<exists>e2. ev = Some e2 \<and> total_frames t \<le> num_detected_frames e2)
            \<and> map_of (active_events t) c = None"
        and "c \<in> fst ` set e \<longleftrightarrow>
            (\<exists>e2. ev = Some e2 \<and> is_expired e2)
            \<and> (map_of (active_events t) c \<noteq> None \<or> c \<in> fst ` set s)"
        and ed: "map_of (event_dict t') c
            = (case ev of Some e2 \<Rightarrow> if is_expired e2 then None else Some e2 | None \<Rightarrow> None)"
        and "map_of (active_events t') c \<noteq> None \<longleftrightarrow>
            (map_of (active_events t) c \<noteq> None \<or> c \<in> fst ` set s)
            \<and> \<not> (\<exists>e2. ev = Some e2 \<and> is_expired e2)"
        and "map_of (active_events t) c \<noteq> None \<and> \<not> (\<exists>e2. ev = Some e2 \<and> is_expired e2) \<longrightarrow>
            map_of (active_events t') c = map_of (active_events t) c"
        by (rule process_phases_classE [OF True dist ph, of c])
      from ed that have "ev = Some e'" "\<not> is_expired e'"
        by (auto split: option.splits if_splits)
      with seen_event_ok [OF inv] seen show ?thesis by simp
    qed
    have ev: "\<forall>p\<in>set (event_dict t'). event_ok (tracker_ttl t) (snd p)"
    proof
      fix p assume "p \<in> set (event_dict t')"
      with shape(1) have "map_of (event_dict t') (fst p) = Some (snd p)" by simp
      from look [OF this] show "event_ok (tracker_ttl t) (snd p)"
        by (auto simp: event_ok_def is_expired_def)
    qed
    have act: "map_of (event_dict t') c \<noteq> None \<and> 1 \<le> tracker_ttl t"
      if "map_of (active_events t') c \<noteq> None" for c
    proof -
      obtain s e ev where "r = Inr (s, e)" and seen: "seen t d c ev"
        and ins: "c \<in> fst ` set s \<longleftrightarrow>
            (\<exists>e2. ev = Some e2 \<and> total_frames t \<le> num_detected_frames e2)
            \<and> map_of (active_events t) c = None"
        and "c \<in> fst ` set e \<longleftrightarrow>
            (\<exists>e2. ev = Some e2 \<and> is_expired e2)
            \<and> (map_of (active_events t) c \<noteq> None \<or> c \<in> fst ` set s)"
        and ed: "map_of (event_dict t') c
            = (case ev of Some e2 \<Rightarrow> if is_expired e2 then None else Some e2 | None \<Rightarrow> None)"
        and ac: "map_of (active_events t') c \<noteq> None \<longleftrightarrow>
            (map_of (active_events t) c \<noteq> None \<or> c \<in> fst ` set s)
            \<and> \<not> (\<exists>e2. ev = Some e2 \<and> is_expired e2)"
        and "map_of (active_events t) c \<noteq> None \<and> \<not> (\<exists>e2. ev = Some e2 \<and> is_expired e2) \<longrightarrow>
            map_of (active_events t') c = map_of (active_events t) c"
        by (rule process_phases_classE [OF True dist ph, of c])
      from that ac have a: "map_of (active_events t) c \<noteq> None \<or> c \<in> fst ` set s"
        and ne: "\<not> (\<exists>e2. ev = Some e2 \<and> is_expired e2)" by simp_all
      have "\<exists>e2. ev = Some e2"
      proof (cases "map_of (active_events t) c")
        case None
        with a ins show ?thesis by blast
      next
        case (Some i)
        then have "c \<in> set (map fst (active_events t))"
          by (auto dest: map_of_SomeD simp: rev_image_eqI)
        with inv have "c \<in> set (map fst (event_dict t))" by (auto simp: tracker_inv_def)
        then obtain e where "map_of (event_dict t) c = Some e"
          by (cases "map_of (event_dict t) c") (auto simp: map_of_eq_None_iff)
        with seen show ?thesis by (simp add: seen_def)
      qed
      then obtain e2 where e2: "ev = Some e2" by blast
      with ne have "map_of (event_dict t') c = Some e2" "\<not> is_expired e2" by (simp_all add: ed)
      with look [of c e2] show ?thesis by (auto simp: is_expired_def)
    qed
    have sub: "set (map fst (active_events t')) \<subseteq> set (map fst (event_dict t'))"
    proof
      fix c assume "c \<in> set (map fst (active_events t'))"
      then have "map_of (active_events t') c \<noteq> None" by (simp add: map_of_eq_None_iff)
      from act [OF this] show "c \<in> set (map fst (event_dict t'))"
        by (simp add: map_of_eq_None_iff)
    qed
    have empty: "active_events t' = []" if "tracker_ttl t \<le> 0"
    proof (cases "active_events t'")
      case Nil
      then show ?thesis .
    next
      case (Cons p ps)
      then have "map_of (active_events t') (fst p) \<noteq> None" by simp
      from act [OF this] that show ?thesis by simp
    qed
    from shape(1,3) sub ev empty show ?thesis
      by (simp add: tracker_inv_def list_all_iff)
  qed
qed

lemma process_tagged_phases:
  "snd (process_tagged t d w) = snd (process_phases t d w)"
  by (auto simp: process_tagged_def split: prod.splits sum.splits)

lemma run_inv: "tracker_inv t \<Longrightarrow> tracker_inv (run_tracker t w ds)"
proof (induction ds arbitrary: t w)
  case Nil
  then show ?case by (simp add: run_tracker_def)
next
  case (Cons d ds)
  obtain r t' w' where ph: "process_phases t d w = (r, t', w')"
    by (metis prod_cases3)
  then obtain r' where pt: "process_tagged t d w = (r', t', w')"
    using process_tagged_phases [of t d w] by (cases "process_tagged t d w") simp
  from process_phases_inv [OF Cons.prems ph] have "tracker_inv (run_tracker t' w' ds)"
    by (rule Cons.IH)
  moreover have "run_tracker t w (d # ds) = run_tracker t' w' ds"
    by (simp add: run_tracker_def pt split: prod.splits)
  ultimately show ?case by simp
qed

lemma run_fields:
  "tracker_inv t \<Longrightarrow>
     tracker_ttl (run_tracker t w ds) = tracker_ttl t
     \<and> total_frames (run_tracker t w ds) = total_frames t"
proof (induction ds arbitrary: t w)
  case Nil
  then show ?case by (simp add: run_tracker_def)
next
  case (Cons d ds)
  obtain r t' w' where ph: "process_phases t d w = (r, t', w')"
    by (metis prod_cases3)
  then obtain r' where pt: "process_tagged t d w = (r', t', w')"
    using process_tagged_phases [of t d w] by (cases "process_tagged t d w") simp
  from Cons.prems have dist: "distinct (map fst (event_dict t))" by (simp add: tracker_inv_def)
  note shape = process_phases_shape(2,3) [OF dist ph]
  have "run_tracker t w (d # ds) = run_tracker t' w' ds"
    by (simp add: run_tracker_def pt split: prod.splits)
  with Cons.IH [OF process_phases_inv [OF Cons.prems ph], of w'] shape show ?case by simp
qed

section \<open>The two dictionaries after any calls\<close>

text \<open>
  C4. After any sequence of calls on a new tracker, every key of \<open>active_events\<close> is a
  key of \<open>event_dict\<close>.
\<close>

theorem active_keys_subset:
  "set (keys (active_events (run_tracker (RoIBusinessLogic n l) w ds)))
     \<subseteq> set (keys (event_dict (run_tracker (RoIBusinessLogic n l) w ds)))"
  using run_inv [OF tracker_inv_init, of n l w ds]
  by (simp add: tracker_inv_def keys_def)

theorem active_keys_subset_witness:
  "set (keys (active_events (run_tracker (RoIBusinessLogic 3 2) \<lparr>uuid_calls = 0, time_calls = 0\<rparr>
      [\<lparr>frame = 1, predictions = Some [\<lparr>classId = Some ''car''\<rparr>]\<rparr>])))
     \<subseteq> set (keys (event_dict (run_tracker (RoIBusinessLogic 3 2) \<lparr>uuid_calls = 0, time_calls = 0\<rparr>
      [\<lparr>frame = 1, predictions = Some [\<lparr>classId = Some ''car''\<rparr>]\<rparr>])))
   \<and> keys (event_dict (run_tracker (RoIBusinessLogic 3 2) \<lparr>uuid_calls = 0, time_calls = 0\<rparr>
      [\<lparr>frame = 1, predictions = Some [\<lparr>classId = Some ''car''\<rparr>]\<rparr>])) = [''car'']"
  using active_keys_subset [of 3 2 "\<lparr>uuid_calls = 0, time_calls = 0\<rparr>"
      "[\<lparr>frame = 1, predictions = Some [\<lparr>classId = Some ''car''\<rparr>]\<rparr>]"]
  by (simp add: run_tracker_def tracker_eval)

text \<open>
  The inclusion is not strict: with \<open>total_frames = 1\<close> and \<open>ttl = 1\<close>, one frame with one
  class leaves that class as the only key of both dictionaries.
\<close>

theorem active_keys_strict_counterexample:
  "keys (active_events (run_tracker (RoIBusinessLogic 1 1) \<lparr>uuid_calls = 0, time_calls = 0\<rparr>
      [\<lparr>frame = 1, predictions = Some [\<lparr>classId = Some ''car''\<rparr>]\<rparr>])) = [''car'']
   \<and> keys (event_dict (run_tracker (RoIBusinessLogic 1 1) \<lparr>uuid_calls = 0, time_calls = 0\<rparr>
      [\<lparr>frame = 1, predictions = Some [\<lparr>classId = Some ''car''\<rparr>]\<rparr>])) = [''car'']
   \<and> \<not> set (keys (active_events (run_tracker (RoIBusinessLogic 1 1) \<lparr>uuid_calls = 0, time_calls = 0\<rparr>
      [\<lparr>frame = 1, predictions = Some [\<lparr>classId = Some ''car''\<rparr>]\<rparr>])))
     \<subset> set (keys (event_dict (run_tracker (RoIBusinessLogic 1 1) \<lparr>uuid_calls = 0, time_calls = 0\<rparr>
      [\<lparr>frame = 1, predictions = Some [\<lparr>classId = Some ''car''\<rparr>]\<rparr>])))"
  by (simp add: run_tracker_def tracker_eval)

text \<open>
  C9. On a tracker constructed with \<open>ttl \<ge> 1\<close>, after any sequence of calls every event
  left in \<open>event_dict\<close> is not expired: its \<open>current_ttl\<close> is at least 1.
\<close>

theorem no_expired_event_survives:
  assumes "1 \<le> l"
  shows "\<forall>p\<in>set (event_dict (run_tracker (RoIBusinessLogic n l) w ds)).
           \<not> is_expired (snd p) \<and> 1 \<le> current_ttl (snd p)"
proof -
  have "tracker_ttl (run_tracker (RoIBusinessLogic n l) w ds) = l"
    using run_fields [OF tracker_inv_init, of n l w ds] by (simp add: RoIBusinessLogic_def)
  with run_inv [OF tracker_inv_init, of n l w ds] assms show ?thesis
    by (auto simp: tracker_inv_def list_all_iff event_ok_def is_expired_def)
qed

theorem no_expired_event_survives_witness:
  "(1::int) \<le> 2
   \<and> event_dict (run_tracker (RoIBusinessLogic 3 2) \<lparr>uuid_calls = 0, time_calls = 0\<rparr>
        [\<lparr>frame = 1, predictions = Some [\<lparr>classId = Some ''car''\<rparr>]\<rparr>,
         \<lparr>frame = 2, predictions = Some []\<rparr>])
      = [(''car'', \<lparr>detection = \<lparr>frame = 1, predictions = Some [\<lparr>classId = Some ''car''\<rparr>]\<rparr>,
            num_detected_frames = 1, creation_time = 0, ttl = 2, current_ttl = 1\<rparr>)]
   \<and> \<not> is_expired \<lparr>detection = \<lparr>frame = 1, predictions = Some [\<lparr>classId = Some ''car''\<rparr>]\<rparr>,
            num_detected_frames = 1, creation_time = 0, ttl = 2, current_ttl = 1\<rparr>
   \<and> (1::int) \<le> current_ttl \<lparr>detection = \<lparr>frame = 1, predictions = Some [\<lparr>classId = Some ''car''\<rparr>]\<rparr>,
            num_detected_frames = 1, creation_time = 0, ttl = 2, current_ttl = 1\<rparr>"
proof -
  have h: "(1::int) \<le> 2" by simp
  have v: "event_dict (run_tracker (RoIBusinessLogic 3 2) \<lparr>uuid_calls = 0, time_calls = 0\<rparr>
        [\<lparr>frame = 1, predictions = Some [\<lparr>classId = Some ''car''\<rparr>]\<rparr>,
         \<lparr>frame = 2, predictions = Some []\<rparr>])
      = [(''car'', \<lparr>detection = \<lparr>frame = 1, predictions = Some [\<lparr>classId = Some ''car''\<rparr>]\<rparr>,
            num_detected_frames = 1, creation_time = 0, ttl = 2, current_ttl = 1\<rparr>)]"
    by (simp add: run_tracker_def tracker_eval)
  from no_expired_event_survives [OF h, of 3 "\<lparr>uuid_calls = 0, time_calls = 0\<rparr>"
      "[\<lparr>frame = 1, predictions = Some [\<lparr>classId = Some ''car''\<rparr>]\<rparr>,
        \<lparr>frame = 2, predictions = Some []\<rparr>]"]
  have "\<not> is_expired \<lparr>detection = \<lparr>frame = 1, predictions = Some [\<lparr>classId = Some ''car''\<rparr>]\<rparr>,
            num_detected_frames = 1, creation_time = 0, ttl = 2, current_ttl = 1\<rparr>
   \<and> (1::int) \<le> current_ttl \<lparr>detection = \<lparr>frame = 1, predictions = Some [\<lparr>classId = Some ''car''\<rparr>]\<rparr>,
            num_detected_frames = 1, creation_time = 0, ttl = 2, current_ttl = 1\<rparr>"
    unfolding v by simp
  with h v show ?thesis by blast
qed

section \<open>One call, class by class\<close>

lemma process_phases_okE:
  assumes wf: "well_formed d" and dist: "distinct (map fst (event_dict t))"
    and ph: "process_phases t d w = (r, t', w')"
  obtains ps t1 w1 s t3 e where "predictions d = Some ps"
    and "update_loop d ps {} t w = (None, set (frame_classes d), t1, w1)"
    and "distinct (map fst (event_dict t1))"
    and "get_starting_events (decay t1 (set (frame_classes d))) w1 = (s, t3, w')"
    and "get_ending_events t3 = (e, t')"
    and "r = Inr (s, e)"
proof -
  from wf obtain ps where ps: "predictions d = Some ps"
    and all: "list_all (\<lambda>p. classId p \<noteq> None) ps"
    by (auto simp: well_formed_def split: option.splits)
  have fc: "frame_classes d = List.map_filter classId ps"
    by (simp add: frame_classes_def ps)
  obtain err cs t1 w1 where up: "update_loop d ps {} t w = (err, cs, t1, w1)"
    by (metis prod_cases4)
  from update_loop_ok [OF all up] have err: "err = None" and cs: "cs = set (frame_classes d)"
    by (simp_all add: fc)
  from update_loop_keys [OF up] dist have d1: "distinct (map fst (event_dict t1))" by simp
  obtain s t3 w3 where st: "get_starting_events (decay t1 cs) w1 = (s, t3, w3)"
    by (metis prod_cases3)
  obtain e t4 where en: "get_ending_events t3 = (e, t4)"
    by (metis surj_pair)
  from ph ps up err st en have r: "r = Inr (s, e)" and t': "t' = t4" and w': "w' = w3"
    by (simp_all add: process_phases_def)
  show thesis
    by (rule that [OF ps up [unfolded err cs] d1 st [unfolded cs w' [symmetric]]
          en [unfolded t' [symmetric]] r])
qed

lemma process_phases_tags_distinct:
  assumes wf: "well_formed d" and dist: "distinct (map fst (event_dict t))"
    and ph: "process_phases t d w = (Inr (s, e), t', w')"
  shows "distinct (map fst s) \<and> distinct (map fst e)"
proof -
  obtain ps t1 w1 s' t3 e' where d1: "distinct (map fst (event_dict t1))"
    and st: "get_starting_events (decay t1 (set (frame_classes d))) w1 = (s', t3, w')"
    and en: "get_ending_events t3 = (e', t')"
    and r: "Inr (s, e) = (Inr (s', e') :: error + tagged list \<times> tagged list)"
    using process_phases_okE [OF wf dist ph] by metis
  from r have eq: "s' = s" "e' = e" by simp_all
  let ?t2 = "decay t1 (set (frame_classes d))"
  have d2: "distinct (map fst (event_dict ?t2))"
    using d1 by (simp add: decay_event_dict keys_def comp_def)
  note se = get_starting_events_effect [OF d2 st]
  have d3: "distinct (map fst (event_dict t3))" using d2 se(2) by simp
  note ee = get_ending_events_effect [OF d3 en]
  from d2 have "distinct (map fst s')" unfolding se(1) by (rule distinct_map_filter)
  moreover from d3 have "distinct (map fst e')" unfolding ee(1) by (rule distinct_map_filter)
  ultimately show ?thesis by (simp add: eq)
qed

lemma count_list_distinct:
  "distinct xs \<Longrightarrow> count_list xs c = (if c \<in> set xs then 1 else 0)"
  by (induction xs) auto

lemma filter_kinds:
  assumes "\<forall>x\<in>set s. is_started (snd x)" and "\<forall>x\<in>set e. is_ended (snd x)"
  shows "filter (\<lambda>x. is_started (snd x)) (s @ e) = s"
    and "filter (\<lambda>x. is_ended (snd x)) (s @ e) = e"
proof -
  have kinds: "is_started x \<longleftrightarrow> \<not> is_ended x" for x
    by (cases x) simp_all
  from assms show "filter (\<lambda>x. is_started (snd x)) (s @ e) = s"
    by (simp add: kinds filter_id_conv filter_empty_conv)
  from assms show "filter (\<lambda>x. is_ended (snd x)) (s @ e) = e"
    by (simp add: kinds filter_id_conv filter_empty_conv)
qed

lemma process_tagged_keys:
  assumes "process_phases t d w = (Inr (s, e), t', w')"
  shows "process_tagged t d w
           = (Inr (if s @ e \<noteq> [] then Some (s @ e) else None), t', w')"
    and "started_keys (fst (process_tagged t d w)) = map fst s"
    and "ended_keys (fst (process_tagged t d w)) = map fst e"
proof -
  show pt: "process_tagged t d w
           = (Inr (if s @ e \<noteq> [] then Some (s @ e) else None), t', w')"
    using assms by (simp add: process_tagged_def)
  note k = process_phases_kinds [OF assms]
  show "started_keys (fst (process_tagged t d w)) = map fst s"
    using filter_kinds(1) [of s e] k by (auto simp: pt started_keys_def)
  show "ended_keys (fst (process_tagged t d w)) = map fst e"
    using filter_kinds(2) [of s e] k by (auto simp: pt ended_keys_def)
qed

text \<open>
  What one call on a well-formed payload does to a class \<open>c\<close>: \<open>ev\<close> is its entry after the
  first two loops; the class is started when \<open>ev\<close> has reached \<open>total_frames\<close> and the
  class is not active, it is ended when \<open>ev\<close> is expired and the class is active then, and
  an expired entry is dropped from both dictionaries.
\<close>

lemma process_tagged_classE:
  assumes wf: "well_formed d" and dist: "distinct (map fst (event_dict t))"
    and pt: "process_tagged t d w = (r, t', w')"
  obtains ev where "seen t d c ev"
    and "count_list (started_keys r) c
          = (if (\<exists>e2. ev = Some e2 \<and> total_frames t \<le> num_detected_frames e2)
                \<and> map_of (active_events t) c = None then 1 else 0)"
    and "count_list (ended_keys r) c
          = (if (\<exists>e2. ev = Some e2 \<and> is_expired e2)
                \<and> (map_of (active_events t) c \<noteq> None \<or> 0 < count_list (started_keys r) c)
             then 1 else 0)"
    and "map_of (event_dict t') c
            = (case ev of Some e2 \<Rightarrow> if is_expired e2 then None else Some e2 | None \<Rightarrow> None)"
    and "map_of (active_events t') c \<noteq> None \<longleftrightarrow>
            (map_of (active_events t) c \<noteq> None \<or> 0 < count_list (started_keys r) c)
            \<and> \<not> (\<exists>e2. ev = Some e2 \<and> is_expired e2)"
    and "map_of (active_events t) c \<noteq> None \<and> \<not> (\<exists>e2. ev = Some e2 \<and> is_expired e2) \<longrightarrow>
            map_of (active_events t') c = map_of (active_events t) c"
    and "distinct (map fst (event_dict t'))"
    and "total_frames t' = total_frames t" and "tracker_ttl t' = tracker_ttl t"
    and "\<exists>x. r = Inr x"
proof -
  obtain r0 where ph: "process_phases t d w = (r0, t', w')"
    using process_tagged_phases [of t d w] pt by (cases "process_phases t d w") simp
  obtain s e ev where r0: "r0 = Inr (s, e)" and seen: "seen t d c ev"
    and ins: "c \<in> fst ` set s \<longleftrightarrow>
            (\<exists>e2. ev = Some e2 \<and> total_frames t \<le> num_detected_frames e2)
            \<and> map_of (active_events t) c = None"
    and ine: "c \<in> fst ` set e \<longleftrightarrow>
            (\<exists>e2. ev = Some e2 \<and> is_expired e2)
            \<and> (map_of (active_events t) c \<noteq> None \<or> c \<in> fst ` set s)"
    and ed: "map_of (event_dict t') c
            = (case ev of Some e2 \<Rightarrow> if is_expired e2 then None else Some e2 | None \<Rightarrow> None)"
    and ac: "map_of (active_events t') c \<noteq> None \<longleftrightarrow>
            (map_of (active_events t) c \<noteq> None \<or> c \<in> fst ` set s)
            \<and> \<not> (\<exists>e2. ev = Some e2 \<and> is_expired e2)"
    and keep: "map_of (active_events t) c \<noteq> None \<and> \<not> (\<exists>e2. ev = Some e2 \<and> is_expired e2) \<longrightarrow>
            map_of (active_events t') c = map_of (active_events t) c"
    by (rule process_phases_classE [OF wf dist ph, of c])
  note ph' = ph [unfolded r0]
  note keys = process_tagged_keys [OF ph']
  from keys(1) pt have r: "r = Inr (if s @ e \<noteq> [] then Some (s @ e) else None)" by simp
  from keys(2,3) pt have sk: "started_keys r = map fst s" and ek: "ended_keys r = map fst e"
    by simp_all
  from process_phases_tags_distinct [OF wf dist ph'] have ds: "distinct (map fst s)"
    and de: "distinct (map fst e)" by simp_all
  have cs: "count_list (started_keys r) c = (if c \<in> fst ` set s then 1 else 0)"
    using count_list_distinct [OF ds, of c] by (simp add: sk)
  have ce: "count_list (ended_keys r) c = (if c \<in> fst ` set e then 1 else 0)"
    using count_list_distinct [OF de, of c] by (simp add: ek)
  have pos: "0 < count_list (started_keys r) c \<longleftrightarrow> c \<in> fst ` set s"
    by (simp add: cs)
  note shape = process_phases_shape(1,2,3) [OF dist ph]
  show thesis
  proof (rule that [of ev])
    show "seen t d c ev" by (rule seen)
    show "count_list (started_keys r) c
          = (if (\<exists>e2. ev = Some e2 \<and> total_frames t \<le> num_detected_frames e2)
                \<and> map_of (active_events t) c = None then 1 else 0)"
      unfolding cs ins by (rule refl)
    show "count_list (ended_keys r) c
          = (if (\<exists>e2. ev = Some e2 \<and> is_expired e2)
                \<and> (map_of (active_events t) c \<noteq> None \<or> 0 < count_list (started_keys r) c)
             then 1 else 0)"
      unfolding pos unfolding ce ine by (rule refl)
    show "map_of (event_dict t') c
            = (case ev of Some e2 \<Rightarrow> if is_expired e2 then None else Some e2 | None \<Rightarrow> None)"
      by (rule ed)
    show "map_of (active_events t') c \<noteq> None \<longleftrightarrow>
            (map_of (active_events t) c \<noteq> None \<or> 0 < count_list (started_keys r) c)
            \<and> \<not> (\<exists>e2. ev = Some e2 \<and> is_expired e2)"
      unfolding pos by (rule ac)
    show "map_of (active_events t) c \<noteq> None \<and> \<not> (\<exists>e2. ev = Some e2 \<and> is_expired e2) \<longrightarrow>
            map_of (active_events t') c = map_of (active_events t) c"
      by (rule keep)
    show "distinct (map fst (event_dict t'))" by (rule shape(1))
    show "total_frames t' = total_frames t" by (rule shape(2))
    show "tracker_ttl t' = tracker_ttl t" by (rule shape(3))
    show "\<exists>x. r = Inr x" by (simp add: r)
  qed
qed

section \<open>Expiry of a class that never started\<close>

text \<open>
  C8. When the entry of a class expires in a call without the class being active and
  without its count having reached \<open>total_frames\<close>, the call returns no ended signal (and
  no started signal) for the class, and the class is in neither dictionary afterwards.
\<close>

theorem unstarted_expiry_is_silent:
  assumes "well_formed d" and "distinct (keys (event_dict t))"
    and "map_of (active_events t) c = None"
    and "expires_unstarted t d c"
    and "process_tagged t d w = (r, t', w')"
  shows "count_list (ended_keys r) c = 0 \<and> count_list (started_keys r) c = 0
       \<and> map_of (event_dict t') c = None \<and> map_of (active_events t') c = None"
proof -
  from assms(2) have dist: "distinct (map fst (event_dict t))" by (simp add: keys_def)
  obtain ev where seen: "seen t d c ev"
    and st: "count_list (started_keys r) c
          = (if (\<exists>e2. ev = Some e2 \<and> total_frames t \<le> num_detected_frames e2)
                \<and> map_of (active_events t) c = None then 1 else 0)"
    and en: "count_list (ended_keys r) c
          = (if (\<exists>e2. ev = Some e2 \<and> is_expired e2)
                \<and> (map_of (active_events t) c \<noteq> None \<or> 0 < count_list (started_keys r) c)
             then 1 else 0)"
    and ed: "map_of (event_dict t') c
            = (case ev of Some e2 \<Rightarrow> if is_expired e2 then None else Some e2 | None \<Rightarrow> None)"
    and ac: "map_of (active_events t') c \<noteq> None \<longleftrightarrow>
            (map_of (active_events t) c \<noteq> None \<or> 0 < count_list (started_keys r) c)
            \<and> \<not> (\<exists>e2. ev = Some e2 \<and> is_expired e2)"
    and "map_of (active_events t) c \<noteq> None \<and> \<not> (\<exists>e2. ev = Some e2 \<and> is_expired e2) \<longrightarrow>
            map_of (active_events t') c = map_of (active_events t) c"
    and "distinct (map fst (event_dict t'))"
    and "total_frames t' = total_frames t" and "tracker_ttl t' = tracker_ttl t"
    and "\<exists>x. r = Inr x"
    by (rule process_tagged_classE [OF assms(1) dist assms(5), of c])
  from seen assms(4) obtain e2 where e2: "ev = Some e2" and ex: "is_expired e2"
    and low: "num_detected_frames e2 < total_frames t"
    by (auto simp: seen_def expires_unstarted_def is_expired_def no_detection_def detected_def
        split: option.splits if_splits)
  from e2 low have s0: "count_list (started_keys r) c = 0" by (simp add: st)
  with assms(3) have e0: "count_list (ended_keys r) c = 0" by (simp add: en)
  from e2 ex have "map_of (event_dict t') c = None" by (simp add: ed)
  moreover from assms(3) s0 ac have "map_of (active_events t') c = None" by simp
  ultimately show ?thesis using s0 e0 by simp
qed

theorem unstarted_expiry_is_silent_witness:
  "well_formed \<lparr>frame = 2, predictions = Some []\<rparr>
   \<and> expires_unstarted
       \<lparr>total_frames = 5,
        event_dict = [(''dog'', Event \<lparr>frame = 1, predictions = Some [\<lparr>classId = Some ''dog''\<rparr>]\<rparr> 1 0)],
        active_events = [], tracker_ttl = 1\<rparr>
       \<lparr>frame = 2, predictions = Some []\<rparr> ''dog''
   \<and> process_tagged
       \<lparr>total_frames = 5,
        event_dict = [(''dog'', Event \<lparr>frame = 1, predictions = Some [\<lparr>classId = Some ''dog''\<rparr>]\<rparr> 1 0)],
        active_events = [], tracker_ttl = 1\<rparr>
       \<lparr>frame = 2, predictions = Some []\<rparr> \<lparr>uuid_calls = 0, time_calls = 1\<rparr>
     = (Inr None, \<lparr>total_frames = 5, event_dict = [], active_events = [], tracker_ttl = 1\<rparr>,
        \<lparr>uuid_calls = 0, time_calls = 1\<rparr>)
   \<and> count_list (ended_keys (Inr None)) ''dog'' = 0
   \<and> map_of (event_dict \<lparr>total_frames = 5, event_dict = [], active_events = [], tracker_ttl = 1\<rparr>)
        ''dog'' = None"
proof -
  let ?t = "\<lparr>total_frames = 5,
        event_dict = [(''dog'', Event \<lparr>frame = 1, predictions = Some [\<lparr>classId = Some ''dog''\<rparr>]\<rparr> 1 0)],
        active_events = [], tracker_ttl = 1\<rparr>"
  let ?d = "\<lparr>frame = 2, predictions = Some []\<rparr>"
  let ?t' = "\<lparr>total_frames = 5, event_dict = [], active_events = [], tracker_ttl = 1\<rparr>"
  have a: "well_formed ?d" by (simp add: well_formed_def)
  have b: "distinct (keys (event_dict ?t))" by (simp add: keys_def)
  have c: "map_of (active_events ?t) ''dog'' = None" by simp
  have d: "expires_unstarted ?t ?d ''dog''"
    by (simp add: expires_unstarted_def frame_classes_def List.map_filter_simps Event_def)
  have e: "process_tagged ?t ?d \<lparr>uuid_calls = 0, time_calls = 1\<rparr>
      = (Inr None, ?t', \<lparr>uuid_calls = 0, time_calls = 1\<rparr>)"
    by (simp add: tracker_eval)
  from unstarted_expiry_is_silent [OF a b c d e] a d e show ?thesis by simp
qed

section \<open>A class several times in one frame\<close>

text \<open>
  The entry of a class that occurs \<open>k \<ge> 1\<close> times in the predictions of a frame: the loop
  over the predictions leaves it with the count raised by \<open>k\<close> if the class was tracked,
  and with the count \<open>k\<close> if the first occurrence created the entry. At the end of the call
  this entry is in \<open>event_dict\<close> unchanged, unless its \<open>ttl\<close> is \<open>\<le> 0\<close>: then it is
  expired and the call has removed it.
\<close>

lemma repeated_class_entry:
  assumes "well_formed d" and "distinct (keys (event_dict t))"
    and "count_list (frame_classes d) c = k" and "1 \<le> k"
    and "predictions d = Some ps"
    and "update_loop d ps {} t w = (err, cs, t1, w1)"
    and "process t d w = (r, t', w')"
  shows "\<exists>e1. map_of (event_dict t1) c = Some e1
          \<and> num_detected_frames e1
              = (case map_of (event_dict t) c of
                   Some e \<Rightarrow> num_detected_frames e + int k | None \<Rightarrow> int k)
          \<and> ttl e1 = (case map_of (event_dict t) c of Some e \<Rightarrow> ttl e | None \<Rightarrow> tracker_ttl t)
          \<and> current_ttl e1 = ttl e1
          \<and> map_of (event_dict t') c = (if ttl e1 \<le> 0 then None else Some e1)"
proof -
  from assms(2) have dist: "distinct (map fst (event_dict t))" by (simp add: keys_def)
  obtain r0 where ph: "process_phases t d w = (r0, t', w')"
    using assms(7) process_tagged_phases [of t d w]
    by (cases "process_phases t d w") (auto simp: process_def split: prod.splits)
  obtain ps' t1' w1' s t3 e where "predictions d = Some ps'"
    and up: "update_loop d ps' {} t w = (None, set (frame_classes d), t1', w1')"
    and d1: "distinct (map fst (event_dict t1'))"
    and st: "get_starting_events (decay t1' (set (frame_classes d))) w1' = (s, t3, w')"
    and en: "get_ending_events t3 = (e, t')"
    and "r0 = Inr (s, e)"
    by (rule process_phases_okE [OF assms(1) dist ph])
  with assms(5,6) have t1: "t1' = t1" and cs: "cs = set (frame_classes d)" by simp_all
  from assms(1,5) have all: "list_all (\<lambda>p. classId p \<noteq> None) ps"
    by (simp add: well_formed_def)
  have fc: "frame_classes d = List.map_filter classId ps"
    by (simp add: frame_classes_def assms(5))
  from assms(3,4) have pos: "count_list (frame_classes d) c \<noteq> 0" by simp
  then have inc: "c \<in> set (frame_classes d)" by (simp add: count_list_0_iff)
  note look = update_loop_lookup [OF all assms(6), of c, folded fc, unfolded assms(3)]
  obtain e1 where e1: "map_of (event_dict t1) c = Some e1"
    and num: "num_detected_frames e1
              = (case map_of (event_dict t) c of
                   Some e \<Rightarrow> num_detected_frames e + int k | None \<Rightarrow> int k)"
    and ttl1: "ttl e1 = (case map_of (event_dict t) c of Some e \<Rightarrow> ttl e | None \<Rightarrow> tracker_ttl t)"
    and cur: "current_ttl e1 = ttl e1"
    using look assms(4) by (auto simp: detected_def split: option.splits if_splits)
  let ?t2 = "decay t1 (set (frame_classes d))"
  have d2: "distinct (map fst (event_dict ?t2))"
    using d1 t1 by (simp add: decay_event_dict keys_def comp_def)
  have ev2: "map_of (event_dict ?t2) c = Some e1"
  proof -
    have "event_dict ?t2
        = map (\<lambda>p. (fst p, if fst p \<in> set (frame_classes d) then snd p else no_detection (snd p)))
            (event_dict t1)"
      using d1 t1 by (simp add: decay_event_dict keys_def)
    then have "map_of (event_dict ?t2) c
        = map_option (\<lambda>e. if c \<in> set (frame_classes d) then e else no_detection e)
            (map_of (event_dict t1) c)"
      by (simp only: map_of_map_snd [where f = "\<lambda>k e. if k \<in> set (frame_classes d) then e else no_detection e"])
    with inc e1 show ?thesis by simp
  qed
  note se = get_starting_events_effect [OF d2 st [unfolded t1]]
  have d3: "distinct (map fst (event_dict t3))" using d2 se(2) by simp
  note ee = get_ending_events_effect [OF d3 en]
  have "map_of (event_dict t') c = (if is_expired e1 then None else Some e1)"
    using map_of_filter_snd [OF d3, of "\<lambda>v. \<not> is_expired v" c] ev2
    by (simp add: ee(2) se(2))
  then have fin: "map_of (event_dict t') c = (if ttl e1 \<le> 0 then None else Some e1)"
    by (simp add: is_expired_def cur)
  from e1 num ttl1 cur fin show ?thesis by blast
qed

text \<open>
  C3 (amended: trackers constructed with \<open>ttl \<ge> 1\<close>). Let \<open>t\<close> be a state that a tracker
  constructed with \<open>ttl \<ge> 1\<close> reaches by any calls, and let class \<open>c\<close> occur \<open>k \<ge> 1\<close> times
  (so also \<open>k \<ge> 2\<close> times) in the predictions of a frame. After the call of \<open>process\<close> on
  that frame the class has an entry whose count is the old count plus \<open>k\<close> if the class was
  tracked before the call, and exactly \<open>k\<close> if the first occurrence created the entry.
\<close>

theorem repeated_class_counts:
  assumes "1 \<le> l"
    and "t = run_tracker (RoIBusinessLogic n l) w0 ds0"
    and "well_formed d"
    and "count_list (frame_classes d) c = k" and "1 \<le> k"
    and "process t d w = (r, t', w')"
  shows "\<exists>e'. map_of (event_dict t') c = Some e'
          \<and> num_detected_frames e'
              = (case map_of (event_dict t) c of
                   Some e \<Rightarrow> num_detected_frames e + int k | None \<Rightarrow> int k)"
proof -
  have inv: "tracker_inv t"
    unfolding assms(2) by (rule run_inv [OF tracker_inv_init])
  have ttl: "tracker_ttl t = l"
    unfolding assms(2) using run_fields [OF tracker_inv_init, of n l w0 ds0]
    by (simp add: RoIBusinessLogic_def)
  from inv have dist: "distinct (keys (event_dict t))" by (simp add: tracker_inv_def keys_def)
  from assms(3) obtain ps where ps: "predictions d = Some ps"
    by (auto simp: well_formed_def split: option.splits)
  obtain err cs t1 w1 where up: "update_loop d ps {} t w = (err, cs, t1, w1)"
    by (metis prod_cases4)
  from repeated_class_entry [OF assms(3) dist assms(4,5) ps up assms(6)]
  obtain e1 where num: "num_detected_frames e1
              = (case map_of (event_dict t) c of
                   Some e \<Rightarrow> num_detected_frames e + int k | None \<Rightarrow> int k)"
    and ttl1: "ttl e1 = (case map_of (event_dict t) c of Some e \<Rightarrow> ttl e | None \<Rightarrow> tracker_ttl t)"
    and fin: "map_of (event_dict t') c = (if ttl e1 \<le> 0 then None else Some e1)"
    by blast
  have "ttl e1 = l"
  proof (cases "map_of (event_dict t) c")
    case None
    with ttl1 ttl show ?thesis by simp
  next
    case (Some e)
    then have "(c, e) \<in> set (event_dict t)" by (rule map_of_SomeD)
    with inv have "event_ok (tracker_ttl t) e" by (auto simp: tracker_inv_def list_all_iff)
    with ttl1 Some ttl show ?thesis by (simp add: event_ok_def)
  qed
  with assms(1) fin have "map_of (event_dict t') c = Some e1" by simp
  with num show ?thesis by blast
qed

theorem repeated_class_counts_witness:
  "(1::int) \<le> 2
   \<and> well_formed \<lparr>frame = 2, predictions = Some [\<lparr>classId = Some ''car''\<rparr>, \<lparr>classId = Some ''car''\<rparr>]\<rparr>
   \<and> count_list (frame_classes \<lparr>frame = 2, predictions = Some [\<lparr>classId = Some ''car''\<rparr>, \<lparr>classId = Some ''car''\<rparr>]\<rparr>) ''car'' = 2
   \<and> map_of (event_dict (run_tracker (RoIBusinessLogic 5 2) \<lparr>uuid_calls = 0, time_calls = 0\<rparr> [\<lparr>frame = 1, predictions = Some [\<lparr>classId = Some ''car''\<rparr>]\<rparr>])) ''car''
       = Some \<lparr>detection = \<lparr>frame = 1, predictions = Some [\<lparr>classId = Some ''car''\<rparr>]\<rparr>, num_detected_frames = 1, creation_time = 0, ttl = 2, current_ttl = 2\<rparr>
   \<and> (\<exists>e'. map_of (event_dict (fst (snd (process
                (run_tracker (RoIBusinessLogic 5 2) \<lparr>uuid_calls = 0, time_calls = 0\<rparr> [\<lparr>frame = 1, predictions = Some [\<lparr>classId = Some ''car''\<rparr>]\<rparr>]) \<lparr>frame = 2, predictions = Some [\<lparr>classId = Some ''car''\<rparr>, \<lparr>classId = Some ''car''\<rparr>]\<rparr> \<lparr>uuid_calls = 0, time_calls = 1\<rparr>)))) ''car'' = Some e'
          \<and> num_detected_frames e' = 1 + 2)
   \<and> map_of (event_dict (fst (snd (process
                (run_tracker (RoIBusinessLogic 5 2) \<lparr>uuid_calls = 0, time_calls = 0\<rparr> [\<lparr>frame = 1, predictions = Some [\<lparr>classId = Some ''car''\<rparr>]\<rparr>]) \<lparr>frame = 2, predictions = Some [\<lparr>classId = Some ''car''\<rparr>, \<lparr>classId = Some ''car''\<rparr>]\<rparr> \<lparr>uuid_calls = 0, time_calls = 1\<rparr>)))) ''car''
       = Some \<lparr>detection = \<lparr>frame = 2, predictions = Some [\<lparr>classId = Some ''car''\<rparr>, \<lparr>classId = Some ''car''\<rparr>]\<rparr>, num_detected_frames = 3, creation_time = 0, ttl = 2, current_ttl = 2\<rparr>"
proof -
  let ?t = "run_tracker (RoIBusinessLogic 5 2) \<lparr>uuid_calls = 0, time_calls = 0\<rparr> [\<lparr>frame = 1, predictions = Some [\<lparr>classId = Some ''car''\<rparr>]\<rparr>]"
  obtain r t' w' where pr: "process ?t \<lparr>frame = 2, predictions = Some [\<lparr>classId = Some ''car''\<rparr>, \<lparr>classId = Some ''car''\<rparr>]\<rparr> \<lparr>uuid_calls = 0, time_calls = 1\<rparr> = (r, t', w')"
    by (metis prod_cases3)
  have a: "(1::int) \<le> 2" by simp
  have b: "?t = run_tracker (RoIBusinessLogic 5 2) \<lparr>uuid_calls = 0, time_calls = 0\<rparr> [\<lparr>frame = 1, predictions = Some [\<lparr>classId = Some ''car''\<rparr>]\<rparr>]" by (rule refl)
  have c: "well_formed \<lparr>frame = 2, predictions = Some [\<lparr>classId = Some ''car''\<rparr>, \<lparr>classId = Some ''car''\<rparr>]\<rparr>" by (simp add: well_formed_def)
  have d: "count_list (frame_classes \<lparr>frame = 2, predictions = Some [\<lparr>classId = Some ''car''\<rparr>, \<lparr>classId = Some ''car''\<rparr>]\<rparr>) ''car'' = 2"
    by (simp add: frame_classes_def List.map_filter_simps)
  have e: "(1::nat) \<le> 2" by simp
  have old: "map_of (event_dict ?t) ''car''
       = Some \<lparr>detection = \<lparr>frame = 1, predictions = Some [\<lparr>classId = Some ''car''\<rparr>]\<rparr>, num_detected_frames = 1, creation_time = 0, ttl = 2, current_ttl = 2\<rparr>"
    by (simp add: run_tracker_def tracker_eval)
  have t': "t' = fst (snd (process ?t \<lparr>frame = 2, predictions = Some [\<lparr>classId = Some ''car''\<rparr>, \<lparr>classId = Some ''car''\<rparr>]\<rparr> \<lparr>uuid_calls = 0, time_calls = 1\<rparr>))" by (simp only: pr fst_conv snd_conv)
  from repeated_class_counts [OF a b c d e pr]
  obtain e' where l: "map_of (event_dict t') ''car'' = Some e'"
    and n: "num_detected_frames e'
        = (case map_of (event_dict ?t) ''car'' of
             Some e \<Rightarrow> num_detected_frames e + int 2 | None \<Rightarrow> int 2)"
    by blast
  from n have "num_detected_frames e' = 1 + 2" unfolding old by simp
  with l have ex: "\<exists>e'. map_of (event_dict (fst (snd (process ?t \<lparr>frame = 2, predictions = Some [\<lparr>classId = Some ''car''\<rparr>, \<lparr>classId = Some ''car''\<rparr>]\<rparr> \<lparr>uuid_calls = 0, time_calls = 1\<rparr>)))) ''car'' = Some e'
          \<and> num_detected_frames e' = 1 + 2"
    unfolding t' by blast
  have v: "map_of (event_dict (fst (snd (process ?t \<lparr>frame = 2, predictions = Some [\<lparr>classId = Some ''car''\<rparr>, \<lparr>classId = Some ''car''\<rparr>]\<rparr> \<lparr>uuid_calls = 0, time_calls = 1\<rparr>)))) ''car''
       = Some \<lparr>detection = \<lparr>frame = 2, predictions = Some [\<lparr>classId = Some ''car''\<rparr>, \<lparr>classId = Some ''car''\<rparr>]\<rparr>, num_detected_frames = 3, creation_time = 0, ttl = 2, current_ttl = 2\<rparr>"
    by (simp add: run_tracker_def tracker_eval)
  from a c d old ex v show ?thesis by blast
qed

text \<open>
  Without \<open>ttl \<ge> 1\<close> the statement fails: on a tracker constructed with \<open>total_frames = 5\<close>
  and \<open>ttl = 0\<close>, a frame with one class twice creates the entry, raises its count to 2 and
  resets \<open>current_ttl\<close> to 0, so the entry is expired and the same call deletes it: the class
  has no entry, and so no count, after the call.
\<close>

theorem repeated_class_ttl_zero_counterexample:
  "well_formed \<lparr>frame = 2, predictions = Some [\<lparr>classId = Some ''car''\<rparr>, \<lparr>classId = Some ''car''\<rparr>]\<rparr>
   \<and> count_list (frame_classes \<lparr>frame = 2, predictions = Some [\<lparr>classId = Some ''car''\<rparr>, \<lparr>classId = Some ''car''\<rparr>]\<rparr>) ''car'' = 2
   \<and> map_of (event_dict (RoIBusinessLogic 5 0)) ''car'' = None
   \<and> process (RoIBusinessLogic 5 0) \<lparr>frame = 2, predictions = Some [\<lparr>classId = Some ''car''\<rparr>, \<lparr>classId = Some ''car''\<rparr>]\<rparr> \<lparr>uuid_calls = 0, time_calls = 0\<rparr>
       = (Inr None, RoIBusinessLogic 5 0, \<lparr>uuid_calls = 0, time_calls = 1\<rparr>)
   \<and> map_of (event_dict (fst (snd (process (RoIBusinessLogic 5 0) \<lparr>frame = 2, predictions = Some [\<lparr>classId = Some ''car''\<rparr>, \<lparr>classId = Some ''car''\<rparr>]\<rparr> \<lparr>uuid_calls = 0, time_calls = 0\<rparr>)))) ''car'' = None"
  by (simp add: tracker_eval well_formed_def frame_classes_def List.map_filter_simps)

section \<open>A class detected once in every frame\<close>

lemma run_Cons_cases:
  assumes "run t w (d # ds) = (rs, t', w')"
  obtains r t1 w1 rs' where "process_tagged t d w = (r, t1, w1)"
    and "run t1 w1 ds = (rs', t', w')" and "rs = r # rs'"
  using assms by (auto split: prod.splits)

lemma start_streak:
  assumes "distinct (map fst (event_dict t))"
    and "1 \<le> tracker_ttl t"
    and "\<forall>d\<in>set ds. well_formed d \<and> count_list (frame_classes d) c = 1"
    and "case map_of (event_dict t) c of
           None \<Rightarrow> m = 0 | Some e \<Rightarrow> num_detected_frames e = m \<and> ttl e = tracker_ttl t"
    and "map_of (active_events t) c \<noteq> None \<longleftrightarrow> total_frames t \<le> m"
    and "run t w ds = (rs, t', w')"
  shows "length rs = length ds
       \<and> (\<forall>j<length ds.
             count_list (started_keys (rs ! j)) c
               = (if m + int j + 1 = total_frames t then 1 else 0)
             \<and> count_list (ended_keys (rs ! j)) c = 0)
       \<and> (ds \<noteq> [] \<longrightarrow>
             (\<exists>e. map_of (event_dict t') c = Some e
                  \<and> num_detected_frames e = m + int (length ds)))
       \<and> (map_of (active_events t') c \<noteq> None \<longleftrightarrow> total_frames t \<le> m + int (length ds))"
  using assms
proof (induction ds arbitrary: t w m rs)
  case Nil
  then show ?case by simp
next
  case (Cons d ds)
  from Cons.prems(3) have wf: "well_formed d" and one: "count_list (frame_classes d) c = 1"
    and rest: "\<forall>d\<in>set ds. well_formed d \<and> count_list (frame_classes d) c = 1"
    by simp_all
  obtain r t1 w1 rs' where pt: "process_tagged t d w = (r, t1, w1)"
    and run: "run t1 w1 ds = (rs', t', w')" and rs: "rs = r # rs'"
    by (rule run_Cons_cases [OF Cons.prems(6)])
  obtain ev where seen: "seen t d c ev"
    and st: "count_list (started_keys r) c
          = (if (\<exists>e2. ev = Some e2 \<and> total_frames t \<le> num_detected_frames e2)
                \<and> map_of (active_events t) c = None then 1 else 0)"
    and en: "count_list (ended_keys r) c
          = (if (\<exists>e2. ev = Some e2 \<and> is_expired e2)
                \<and> (map_of (active_events t) c \<noteq> None \<or> 0 < count_list (started_keys r) c)
             then 1 else 0)"
    and ed: "map_of (event_dict t1) c
            = (case ev of Some e2 \<Rightarrow> if is_expired e2 then None else Some e2 | None \<Rightarrow> None)"
    and ac: "map_of (active_events t1) c \<noteq> None \<longleftrightarrow>
            (map_of (active_events t) c \<noteq> None \<or> 0 < count_list (started_keys r) c)
            \<and> \<not> (\<exists>e2. ev = Some e2 \<and> is_expired e2)"
    and "map_of (active_events t) c \<noteq> None \<and> \<not> (\<exists>e2. ev = Some e2 \<and> is_expired e2) \<longrightarrow>
            map_of (active_events t1) c = map_of (active_events t) c"
    and d1: "distinct (map fst (event_dict t1))"
    and n1: "total_frames t1 = total_frames t" and l1: "tracker_ttl t1 = tracker_ttl t"
    and "\<exists>x. r = Inr x"
    by (rule process_tagged_classE [OF wf Cons.prems(1) pt, of c])
  from seen one Cons.prems(4) obtain e2 where e2: "ev = Some e2"
    and num: "num_detected_frames e2 = m + 1"
    and ttl2: "ttl e2 = tracker_ttl t" and cur: "current_ttl e2 = tracker_ttl t"
    by (auto simp: seen_def detected_def split: option.splits)
  from cur Cons.prems(2) have live: "\<not> is_expired e2" by (simp add: is_expired_def)
  have st': "count_list (started_keys r) c = (if m + 1 = total_frames t then 1 else 0)"
    using Cons.prems(5) by (auto simp: st e2 num)
  have en': "count_list (ended_keys r) c = 0"
    using live by (simp add: en e2)
  have ed': "map_of (event_dict t1) c = Some e2"
    using live by (simp add: ed e2)
  have ac': "map_of (active_events t1) c \<noteq> None \<longleftrightarrow> total_frames t1 \<le> m + 1"
  proof -
    have "(map_of (active_events t1) c \<noteq> None)
        = ((map_of (active_events t) c \<noteq> None \<or> 0 < count_list (started_keys r) c)
           \<and> \<not> (\<exists>e2. ev = Some e2 \<and> is_expired e2))"
      by (rule ac)
    also have "\<dots> = (total_frames t \<le> m \<or> m + 1 = total_frames t)"
      unfolding Cons.prems(5) st' using live e2 by simp
    also have "\<dots> = (total_frames t1 \<le> m + 1)"
      by (auto simp: n1)
    finally show ?thesis .
  qed
  have ih: "length rs' = length ds
       \<and> (\<forall>j<length ds.
             count_list (started_keys (rs' ! j)) c
               = (if (m + 1) + int j + 1 = total_frames t1 then 1 else 0)
             \<and> count_list (ended_keys (rs' ! j)) c = 0)
       \<and> (ds \<noteq> [] \<longrightarrow>
             (\<exists>e. map_of (event_dict t') c = Some e
                  \<and> num_detected_frames e = (m + 1) + int (length ds)))
       \<and> (map_of (active_events t') c \<noteq> None \<longleftrightarrow> total_frames t1 \<le> (m + 1) + int (length ds))"
  proof (rule Cons.IH [OF d1 _ rest _ ac' run])
    show "1 \<le> tracker_ttl t1" using Cons.prems(2) by (simp add: l1)
    show "case map_of (event_dict t1) c of
           None \<Rightarrow> m + 1 = 0 | Some e \<Rightarrow> num_detected_frames e = m + 1 \<and> ttl e = tracker_ttl t1"
      by (simp add: ed' num ttl2 l1)
  qed
  have len: "length rs = length (d # ds)" using ih rs by simp
  have each: "count_list (started_keys (rs ! j)) c
               = (if m + int j + 1 = total_frames t then 1 else 0)
             \<and> count_list (ended_keys (rs ! j)) c = 0" if "j < length (d # ds)" for j
  proof (cases j)
    case 0
    then show ?thesis by (simp add: rs st' en')
  next
    case (Suc j')
    with that have "j' < length ds" by simp
    with ih have "count_list (started_keys (rs' ! j')) c
               = (if (m + 1) + int j' + 1 = total_frames t1 then 1 else 0)
             \<and> count_list (ended_keys (rs' ! j')) c = 0" by blast
    moreover have "(m + 1) + int j' + 1 = m + int j + 1" by (simp add: Suc)
    moreover have "rs ! j = rs' ! j'" by (simp add: Suc rs)
    ultimately show ?thesis by (simp only: n1)
  qed
  have fin: "\<exists>e. map_of (event_dict t') c = Some e
                  \<and> num_detected_frames e = m + int (length (d # ds))"
  proof (cases ds)
    case Nil
    with run have "t' = t1" by simp
    with ed' num Nil show ?thesis by simp
  next
    case (Cons a list)
    with ih have "\<exists>e. map_of (event_dict t') c = Some e
                  \<and> num_detected_frames e = (m + 1) + int (length ds)" by blast
    moreover have "(m + 1) + int (length ds) = m + int (length (d # ds))" by simp
    ultimately show ?thesis by (simp only:)
  qed
  have act: "map_of (active_events t') c \<noteq> None \<longleftrightarrow> total_frames t \<le> m + int (length (d # ds))"
  proof -
    from ih have "map_of (active_events t') c \<noteq> None
        \<longleftrightarrow> total_frames t1 \<le> (m + 1) + int (length ds)" by blast
    moreover have "(m + 1) + int (length ds) = m + int (length (d # ds))" by simp
    ultimately show ?thesis by (simp only: n1)
  qed
  show ?case
  proof (intro conjI allI impI)
    show "length rs = length (d # ds)" by (rule len)
    show "\<exists>e. map_of (event_dict t') c = Some e
                  \<and> num_detected_frames e = m + int (length (d # ds))" by (rule fin)
    show "map_of (active_events t') c \<noteq> None \<longleftrightarrow> total_frames t \<le> m + int (length (d # ds))"
      by (rule act)
  next
    fix j assume "j < length (d # ds)"
    from each [OF this] show "count_list (started_keys (rs ! j)) c
               = (if m + int j + 1 = total_frames t then 1 else 0)"
      and "count_list (ended_keys (rs ! j)) c = 0" by simp_all
  qed
qed

text \<open>
  C1 (amended: trackers with \<open>ttl \<ge> 1\<close>). Let \<open>total_frames = N \<ge> 1\<close> and \<open>ttl \<ge> 1\<close>, and
  let class \<open>c\<close> be untracked and inactive before a run of frames that each hold \<open>c\<close>
  exactly once. Then the call on frame \<open>j + 1\<close> returns one started signal for \<open>c\<close> when
  \<open>j + 1 = N\<close> and none otherwise; after the frames the count of \<open>c\<close> is their number, and
  \<open>c\<close> is active exactly when that number has reached \<open>N\<close>.
\<close>

theorem started_once_at_threshold:
  assumes "1 \<le> total_frames t" and "1 \<le> tracker_ttl t"
    and "distinct (keys (event_dict t))"
    and "map_of (event_dict t) c = None" and "map_of (active_events t) c = None"
    and "\<forall>d\<in>set ds. well_formed d \<and> count_list (frame_classes d) c = 1"
    and "run t w ds = (rs, t', w')"
  shows "length rs = length ds
       \<and> (\<forall>j<length ds.
             count_list (started_keys (rs ! j)) c
               = (if int j + 1 = total_frames t then 1 else 0))
       \<and> (ds \<noteq> [] \<longrightarrow>
             (\<exists>e. map_of (event_dict t') c = Some e
                  \<and> num_detected_frames e = int (length ds)))
       \<and> (map_of (active_events t') c \<noteq> None \<longleftrightarrow> total_frames t \<le> int (length ds))"
proof -
  from assms(3) have dist: "distinct (map fst (event_dict t))" by (simp add: keys_def)
  have ev: "case map_of (event_dict t) c of
           None \<Rightarrow> (0::int) = 0 | Some e \<Rightarrow> num_detected_frames e = 0 \<and> ttl e = tracker_ttl t"
    by (simp add: assms(4))
  have ac: "map_of (active_events t) c \<noteq> None \<longleftrightarrow> total_frames t \<le> 0"
    using assms(1,5) by simp
  from start_streak [OF dist assms(2) assms(6) ev ac assms(7)]
  show ?thesis by simp
qed

theorem started_once_at_threshold_witness:
  "fst (run (RoIBusinessLogic 3 2) \<lparr>uuid_calls = 0, time_calls = 0\<rparr> [\<lparr>frame = 1, predictions = Some [\<lparr>classId = Some ''car''\<rparr>]\<rparr>, \<lparr>frame = 2, predictions = Some [\<lparr>classId = Some ''car''\<rparr>]\<rparr>, \<lparr>frame = 3, predictions = Some [\<lparr>classId = Some ''car''\<rparr>]\<rparr>])
     = [Inr None, Inr None, Inr (Some [(''car'', EventStartedSignal 0 \<lparr>frame = 3, predictions = Some [\<lparr>classId = Some ''car''\<rparr>]\<rparr>)])]
   \<and> count_list (started_keys (fst (run (RoIBusinessLogic 3 2) \<lparr>uuid_calls = 0, time_calls = 0\<rparr> [\<lparr>frame = 1, predictions = Some [\<lparr>classId = Some ''car''\<rparr>]\<rparr>, \<lparr>frame = 2, predictions = Some [\<lparr>classId = Some ''car''\<rparr>]\<rparr>, \<lparr>frame = 3, predictions = Some [\<lparr>classId = Some ''car''\<rparr>]\<rparr>]) ! 0)) ''car'' = 0
   \<and> count_list (started_keys (fst (run (RoIBusinessLogic 3 2) \<lparr>uuid_calls = 0, time_calls = 0\<rparr> [\<lparr>frame = 1, predictions = Some [\<lparr>classId = Some ''car''\<rparr>]\<rparr>, \<lparr>frame = 2, predictions = Some [\<lparr>classId = Some ''car''\<rparr>]\<rparr>, \<lparr>frame = 3, predictions = Some [\<lparr>classId = Some ''car''\<rparr>]\<rparr>]) ! 1)) ''car'' = 0
   \<and> count_list (started_keys (fst (run (RoIBusinessLogic 3 2) \<lparr>uuid_calls = 0, time_calls = 0\<rparr> [\<lparr>frame = 1, predictions = Some [\<lparr>classId = Some ''car''\<rparr>]\<rparr>, \<lparr>frame = 2, predictions = Some [\<lparr>classId = Some ''car''\<rparr>]\<rparr>, \<lparr>frame = 3, predictions = Some [\<lparr>classId = Some ''car''\<rparr>]\<rparr>]) ! 2)) ''car'' = 1"
proof -
  let ?t = "RoIBusinessLogic 3 2"
  let ?ds = "[\<lparr>frame = 1, predictions = Some [\<lparr>classId = Some ''car''\<rparr>]\<rparr>, \<lparr>frame = 2, predictions = Some [\<lparr>classId = Some ''car''\<rparr>]\<rparr>, \<lparr>frame = 3, predictions = Some [\<lparr>classId = Some ''car''\<rparr>]\<rparr>]"
  obtain rs t' w' where run: "run ?t \<lparr>uuid_calls = 0, time_calls = 0\<rparr> ?ds = (rs, t', w')"
    by (metis prod_cases3)
  have a: "1 \<le> total_frames ?t" by (simp add: RoIBusinessLogic_def)
  have b: "1 \<le> tracker_ttl ?t" by (simp add: RoIBusinessLogic_def)
  have c: "distinct (keys (event_dict ?t))" by (simp add: RoIBusinessLogic_def keys_def)
  have d: "map_of (event_dict ?t) ''car'' = None" by (simp add: RoIBusinessLogic_def)
  have e: "map_of (active_events ?t) ''car'' = None" by (simp add: RoIBusinessLogic_def)
  have f: "\<forall>d\<in>set ?ds. well_formed d \<and> count_list (frame_classes d) ''car'' = 1"
    by (simp add: well_formed_def frame_classes_def List.map_filter_simps)
  from started_once_at_threshold [OF a b c d e f run]
  have each: "\<forall>j<length ?ds. count_list (started_keys (rs ! j)) ''car''
               = (if int j + 1 = total_frames ?t then 1 else 0)"
    by blast
  have rs: "rs = fst (run ?t \<lparr>uuid_calls = 0, time_calls = 0\<rparr> ?ds)" by (simp only: run fst_conv)
  have c0: "count_list (started_keys (fst (run ?t \<lparr>uuid_calls = 0, time_calls = 0\<rparr> ?ds) ! 0)) ''car'' = 0"
    using each [rule_format, of 0] unfolding rs by (simp add: RoIBusinessLogic_def)
  have c1: "count_list (started_keys (fst (run ?t \<lparr>uuid_calls = 0, time_calls = 0\<rparr> ?ds) ! 1)) ''car'' = 0"
    using each [rule_format, of 1] unfolding rs by (simp add: RoIBusinessLogic_def)
  have c2: "count_list (started_keys (fst (run ?t \<lparr>uuid_calls = 0, time_calls = 0\<rparr> ?ds) ! 2)) ''car'' = 1"
    using each [rule_format, of 2] unfolding rs by (simp add: RoIBusinessLogic_def)
  have v: "fst (run ?t \<lparr>uuid_calls = 0, time_calls = 0\<rparr> ?ds)
     = [Inr None, Inr None, Inr (Some [(''car'', EventStartedSignal 0 \<lparr>frame = 3, predictions = Some [\<lparr>classId = Some ''car''\<rparr>]\<rparr>)])]"
    by (simp add: tracker_eval)
  from v c0 c1 c2 show ?thesis by blast
qed

text \<open>
  Without \<open>ttl \<ge> 1\<close> the statement fails: with \<open>total_frames = 2\<close> and \<open>ttl = 0\<close> every
  entry is expired in the call that creates it, so a class detected once in each of three
  frames never reaches the count 2; no call returns a signal, and the tracker is empty
  after each of them.
\<close>

theorem started_once_ttl_zero_counterexample:
  "count_list (frame_classes \<lparr>frame = 1, predictions = Some [\<lparr>classId = Some ''car''\<rparr>]\<rparr>) ''car'' = 1 \<and> count_list (frame_classes \<lparr>frame = 2, predictions = Some [\<lparr>classId = Some ''car''\<rparr>]\<rparr>) ''car'' = 1
   \<and> count_list (frame_classes \<lparr>frame = 3, predictions = Some [\<lparr>classId = Some ''car''\<rparr>]\<rparr>) ''car'' = 1
   \<and> run (RoIBusinessLogic 2 0) \<lparr>uuid_calls = 0, time_calls = 0\<rparr> [\<lparr>frame = 1, predictions = Some [\<lparr>classId = Some ''car''\<rparr>]\<rparr>, \<lparr>frame = 2, predictions = Some [\<lparr>classId = Some ''car''\<rparr>]\<rparr>, \<lparr>frame = 3, predictions = Some [\<lparr>classId = Some ''car''\<rparr>]\<rparr>]
       = ([Inr None, Inr None, Inr None], RoIBusinessLogic 2 0, \<lparr>uuid_calls = 0, time_calls = 3\<rparr>)
   \<and> count_list (started_keys (fst (run (RoIBusinessLogic 2 0) \<lparr>uuid_calls = 0, time_calls = 0\<rparr> [\<lparr>frame = 1, predictions = Some [\<lparr>classId = Some ''car''\<rparr>]\<rparr>, \<lparr>frame = 2, predictions = Some [\<lparr>classId = Some ''car''\<rparr>]\<rparr>, \<lparr>frame = 3, predictions = Some [\<lparr>classId = Some ''car''\<rparr>]\<rparr>]) ! 1)) ''car'' \<noteq> 1"
  by (simp add: tracker_eval frame_classes_def List.map_filter_simps started_keys_def)

section \<open>An active class that stays away\<close>

lemma absent_step:
  assumes wf: "well_formed d" and absent: "count_list (frame_classes d) c = 0"
    and dist: "distinct (map fst (event_dict t))"
    and pt: "process_tagged t d w = (r, t1, w1)"
  shows "distinct (map fst (event_dict t1)) \<and> total_frames t1 = total_frames t
       \<and> tracker_ttl t1 = tracker_ttl t"
    and "map_of (event_dict t) c = None \<Longrightarrow> map_of (active_events t) c = None \<Longrightarrow>
           map_of (event_dict t1) c = None \<and> map_of (active_events t1) c = None
           \<and> count_list (started_keys r) c = 0 \<and> count_list (ended_keys r) c = 0"
    and "map_of (event_dict t) c = Some e \<Longrightarrow> map_of (active_events t) c = Some i \<Longrightarrow>
           count_list (started_keys r) c = 0
           \<and> (if current_ttl e \<le> 1
               then count_list (ended_keys r) c = 1 \<and> map_of (event_dict t1) c = None
                    \<and> map_of (active_events t1) c = None
               else count_list (ended_keys r) c = 0
                    \<and> map_of (event_dict t1) c = Some (no_detection e)
                    \<and> map_of (active_events t1) c = Some i)"
proof -
  obtain ev where seen: "seen t d c ev"
    and st: "count_list (started_keys r) c
          = (if (\<exists>e2. ev = Some e2 \<and> total_frames t \<le> num_detected_frames e2)
                \<and> map_of (active_events t) c = None then 1 else 0)"
    and en: "count_list (ended_keys r) c
          = (if (\<exists>e2. ev = Some e2 \<and> is_expired e2)
                \<and> (map_of (active_events t) c \<noteq> None \<or> 0 < count_list (started_keys r) c)
             then 1 else 0)"
    and ed: "map_of (event_dict t1) c
            = (case ev of Some e2 \<Rightarrow> if is_expired e2 then None else Some e2 | None \<Rightarrow> None)"
    and ac: "map_of (active_events t1) c \<noteq> None \<longleftrightarrow>
            (map_of (active_events t) c \<noteq> None \<or> 0 < count_list (started_keys r) c)
            \<and> \<not> (\<exists>e2. ev = Some e2 \<and> is_expired e2)"
    and keep: "map_of (active_events t) c \<noteq> None \<and> \<not> (\<exists>e2. ev = Some e2 \<and> is_expired e2) \<longrightarrow>
            map_of (active_events t1) c = map_of (active_events t) c"
    and d1: "distinct (map fst (event_dict t1))"
    and n1: "total_frames t1 = total_frames t" and l1: "tracker_ttl t1 = tracker_ttl t"
    and "\<exists>x. r = Inr x"
    by (rule process_tagged_classE [OF wf dist pt, of c])
  from d1 n1 l1 show "distinct (map fst (event_dict t1)) \<and> total_frames t1 = total_frames t
       \<and> tracker_ttl t1 = tracker_ttl t" by simp
  show "map_of (event_dict t1) c = None \<and> map_of (active_events t1) c = None
           \<and> count_list (started_keys r) c = 0 \<and> count_list (ended_keys r) c = 0"
    if "map_of (event_dict t) c = None" "map_of (active_events t) c = None"
  proof -
    from seen that(1) absent have ev: "ev = None" by (simp add: seen_def)
    have s0: "count_list (started_keys r) c = 0" by (simp add: st ev)
    have e0: "count_list (ended_keys r) c = 0" by (simp add: en ev)
    have "map_of (event_dict t1) c = None" by (simp add: ed ev)
    moreover have "map_of (active_events t1) c = None"
      using ac that(2) s0 by simp
    ultimately show ?thesis using s0 e0 by simp
  qed
  show "count_list (started_keys r) c = 0
           \<and> (if current_ttl e \<le> 1
               then count_list (ended_keys r) c = 1 \<and> map_of (event_dict t1) c = None
                    \<and> map_of (active_events t1) c = None
               else count_list (ended_keys r) c = 0
                    \<and> map_of (event_dict t1) c = Some (no_detection e)
                    \<and> map_of (active_events t1) c = Some i)"
    if "map_of (event_dict t) c = Some e" "map_of (active_events t) c = Some i"
  proof -
    from seen that(1) absent have ev: "ev = Some (no_detection e)" by (simp add: seen_def)
    have s0: "count_list (started_keys r) c = 0" by (simp add: st that(2))
    have ex: "is_expired (no_detection e) \<longleftrightarrow> current_ttl e \<le> 1"
      by (auto simp: is_expired_def no_detection_def)
    show ?thesis
    proof (cases "current_ttl e \<le> 1")
      case True
      then have x: "is_expired (no_detection e)" by (simp add: ex)
      have "count_list (ended_keys r) c = 1" by (simp add: en ev x that(2))
      moreover have "map_of (event_dict t1) c = None" by (simp add: ed ev x)
      moreover have "map_of (active_events t1) c = None"
        using ac by (simp add: ev x)
      ultimately show ?thesis using s0 True by simp
    next
      case False
      then have x: "\<not> is_expired (no_detection e)" by (simp add: ex)
      have "count_list (ended_keys r) c = 0" by (simp add: en ev x)
      moreover have "map_of (event_dict t1) c = Some (no_detection e)" by (simp add: ed ev x)
      moreover have "map_of (active_events t1) c = Some i"
        using keep by (simp add: ev x that(2))
      ultimately show ?thesis using s0 False by simp
    qed
  qed
qed

lemma absent_untracked:
  assumes "distinct (map fst (event_dict t))"
    and "map_of (event_dict t) c = None" and "map_of (active_events t) c = None"
    and "\<forall>d\<in>set ds. well_formed d \<and> count_list (frame_classes d) c = 0"
    and "run t w ds = (rs, t', w')"
  shows "distinct (map fst (event_dict t')) \<and> tracker_ttl t' = tracker_ttl t
       \<and> map_of (event_dict t') c = None \<and> map_of (active_events t') c = None"
  using assms
proof (induction ds arbitrary: t w rs)
  case Nil
  then show ?case by simp
next
  case (Cons d ds)
  from Cons.prems(4) have wf: "well_formed d" and absent: "count_list (frame_classes d) c = 0"
    and rest: "\<forall>d\<in>set ds. well_formed d \<and> count_list (frame_classes d) c = 0"
    by simp_all
  obtain r t1 w1 rs' where pt: "process_tagged t d w = (r, t1, w1)"
    and run: "run t1 w1 ds = (rs', t', w')" and rs: "rs = r # rs'"
    by (rule run_Cons_cases [OF Cons.prems(5)])
  note step = absent_step [OF wf absent Cons.prems(1) pt]
  from step(1) have d1: "distinct (map fst (event_dict t1))"
    and l1: "tracker_ttl t1 = tracker_ttl t" by simp_all
  from step(2) [OF Cons.prems(2,3)] have u1: "map_of (event_dict t1) c = None"
    and a1: "map_of (active_events t1) c = None" by simp_all
  from Cons.IH [OF d1 u1 a1 rest run] l1 show ?case by simp
qed

lemma end_streak:
  assumes "distinct (map fst (event_dict t))"
    and "map_of (active_events t) c = Some i"
    and "map_of (event_dict t) c = Some e"
    and "current_ttl e = int (length ds)" and "ds \<noteq> []"
    and "\<forall>d\<in>set ds. well_formed d \<and> count_list (frame_classes d) c = 0"
    and "run t w ds = (rs, t', w')"
  shows "length rs = length ds
       \<and> (\<forall>j<length ds.
             count_list (ended_keys (rs ! j)) c = (if Suc j = length ds then 1 else 0)
             \<and> count_list (started_keys (rs ! j)) c = 0)
       \<and> map_of (event_dict t') c = None \<and> map_of (active_events t') c = None
       \<and> distinct (map fst (event_dict t')) \<and> tracker_ttl t' = tracker_ttl t"
  using assms
proof (induction ds arbitrary: t w e rs)
  case Nil
  then show ?case by simp
next
  case (Cons d ds)
  from Cons.prems(6) have wf: "well_formed d" and absent: "count_list (frame_classes d) c = 0"
    and rest: "\<forall>d\<in>set ds. well_formed d \<and> count_list (frame_classes d) c = 0"
    by simp_all
  obtain r t1 w1 rs' where pt: "process_tagged t d w = (r, t1, w1)"
    and run: "run t1 w1 ds = (rs', t', w')" and rs: "rs = r # rs'"
    by (rule run_Cons_cases [OF Cons.prems(7)])
  note step = absent_step [OF wf absent Cons.prems(1) pt]
  from step(1) have d1: "distinct (map fst (event_dict t1))"
    and l1: "tracker_ttl t1 = tracker_ttl t" by simp_all
  note here = step(3) [OF Cons.prems(3) Cons.prems(2)]
  from here have s0: "count_list (started_keys r) c = 0" by simp
  show ?case
  proof (cases ds)
    case Nil
    with Cons.prems(4) have "current_ttl e \<le> 1" by simp
    with here have "count_list (ended_keys r) c = 1" "map_of (event_dict t1) c = None"
      "map_of (active_events t1) c = None" by simp_all
    moreover from run Nil have "t' = t1" "rs' = []" by simp_all
    ultimately show ?thesis using s0 d1 l1 Nil rs by simp
  next
    case (Cons a list)
    with Cons.prems(4) have big: "\<not> current_ttl e \<le> 1" by simp
    with here have e0: "count_list (ended_keys r) c = 0"
      and ed1: "map_of (event_dict t1) c = Some (no_detection e)"
      and ac1: "map_of (active_events t1) c = Some i" by simp_all
    have cur: "current_ttl (no_detection e) = int (length ds)"
      using Cons.prems(4) by (simp add: no_detection_def)
    have ne: "ds \<noteq> []" using Cons by simp
    from Cons.IH [OF d1 ac1 ed1 cur ne rest run]
    have ih: "length rs' = length ds"
      "\<forall>j<length ds.
             count_list (ended_keys (rs' ! j)) c = (if Suc j = length ds then 1 else 0)
             \<and> count_list (started_keys (rs' ! j)) c = 0"
      "map_of (event_dict t') c = None" "map_of (active_events t') c = None"
      "distinct (map fst (event_dict t'))" "tracker_ttl t' = tracker_ttl t1"
      by simp_all
    have each: "count_list (ended_keys (rs ! j)) c = (if Suc j = length (d # ds) then 1 else 0)
             \<and> count_list (started_keys (rs ! j)) c = 0" if "j < length (d # ds)" for j
    proof (cases j)
      case 0
      with ne show ?thesis by (simp add: rs e0 s0)
    next
      case (Suc j')
      with that have "j' < length ds" by simp
      with ih(2) have "count_list (ended_keys (rs' ! j')) c = (if Suc j' = length ds then 1 else 0)
             \<and> count_list (started_keys (rs' ! j')) c = 0" by blast
      then show ?thesis by (simp add: Suc rs)
    qed
    show ?thesis
    proof (intro conjI allI impI)
      show "length rs = length (d # ds)" by (simp add: rs ih(1))
      show "map_of (event_dict t') c = None" by (rule ih(3))
      show "map_of (active_events t') c = None" by (rule ih(4))
      show "distinct (map fst (event_dict t'))" by (rule ih(5))
      show "tracker_ttl t' = tracker_ttl t" by (simp add: ih(6) l1)
    next
      fix j assume "j < length (d # ds)"
      from each [OF this]
      show "count_list (ended_keys (rs ! j)) c = (if Suc j = length (d # ds) then 1 else 0)"
        and "count_list (started_keys (rs ! j)) c = 0" by simp_all
    qed
  qed
qed

text \<open>
  C2. Let \<open>t\<close> be a state a new tracker reaches by any calls, in which class \<open>c\<close> is active
  and its entry has the full \<open>current_ttl = ttl\<close> (it was just detected). Let \<open>ttl\<close> frames
  without \<open>c\<close> follow. Then \<open>ttl \<ge> 1\<close>, the call on the last of these frames returns one
  ended signal for \<open>c\<close> and the calls before it none, and afterwards \<open>c\<close> is in neither
  dictionary. When \<open>c\<close> comes back once in a later frame (after any further frames without
  it), its entry is a new one with \<open>num_detected_frames = 1\<close> and the full \<open>ttl\<close>.
\<close>

theorem ended_once_after_absence:
  assumes "t = run_tracker (RoIBusinessLogic n l) w0 ds0"
    and "map_of (active_events t) c = Some i"
    and "map_of (event_dict t) c = Some e"
    and "current_ttl e = tracker_ttl t"
    and "length ds = nat (tracker_ttl t)"
    and "\<forall>d\<in>set ds. well_formed d \<and> count_list (frame_classes d) c = 0"
    and "run t w ds = (rs, t1, w1)"
    and "\<forall>d\<in>set ds2. well_formed d \<and> count_list (frame_classes d) c = 0"
    and "run t1 w1 ds2 = (rs2, t2, w2)"
    and "well_formed d'" and "count_list (frame_classes d') c = 1"
    and "process_tagged t2 d' w2 = (r3, t3, w3)"
  shows "1 \<le> tracker_ttl t \<and> length rs = length ds
       \<and> (\<forall>j<length ds.
             count_list (ended_keys (rs ! j)) c = (if Suc j = length ds then 1 else 0))
       \<and> map_of (event_dict t1) c = None \<and> map_of (active_events t1) c = None
       \<and> (\<exists>e'. map_of (event_dict t3) c = Some e' \<and> num_detected_frames e' = 1
               \<and> current_ttl e' = tracker_ttl t)"
proof -
  have inv: "tracker_inv t"
    unfolding assms(1) by (rule run_inv [OF tracker_inv_init])
  then have dist: "distinct (map fst (event_dict t))" by (simp add: tracker_inv_def)
  from assms(2) have "active_events t \<noteq> []" by auto
  with inv have pos: "1 \<le> tracker_ttl t" by (auto simp: tracker_inv_def)
  with assms(5) have ne: "ds \<noteq> []" and cur: "current_ttl e = int (length ds)"
    by (auto simp: assms(4))
  from end_streak [OF dist assms(2,3) cur ne assms(6,7)]
  have len: "length rs = length ds"
    and each: "\<forall>j<length ds.
             count_list (ended_keys (rs ! j)) c = (if Suc j = length ds then 1 else 0)
             \<and> count_list (started_keys (rs ! j)) c = 0"
    and u1: "map_of (event_dict t1) c = None" and a1: "map_of (active_events t1) c = None"
    and d1: "distinct (map fst (event_dict t1))" and l1: "tracker_ttl t1 = tracker_ttl t"
    by simp_all
  from absent_untracked [OF d1 u1 a1 assms(8,9)]
  have d2: "distinct (map fst (event_dict t2))" and l2: "tracker_ttl t2 = tracker_ttl t1"
    and u2: "map_of (event_dict t2) c = None" and a2: "map_of (active_events t2) c = None"
    by simp_all
  obtain ev where seen: "seen t2 d' c ev"
    and "count_list (started_keys r3) c
          = (if (\<exists>e2. ev = Some e2 \<and> total_frames t2 \<le> num_detected_frames e2)
                \<and> map_of (active_events t2) c = None then 1 else 0)"
    and "count_list (ended_keys r3) c
          = (if (\<exists>e2. ev = Some e2 \<and> is_expired e2)
                \<and> (map_of (active_events t2) c \<noteq> None \<or> 0 < count_list (started_keys r3) c)
             then 1 else 0)"
    and ed: "map_of (event_dict t3) c
            = (case ev of Some e2 \<Rightarrow> if is_expired e2 then None else Some e2 | None \<Rightarrow> None)"
    and "map_of (active_events t3) c \<noteq> None \<longleftrightarrow>
            (map_of (active_events t2) c \<noteq> None \<or> 0 < count_list (started_keys r3) c)
            \<and> \<not> (\<exists>e2. ev = Some e2 \<and> is_expired e2)"
    and "map_of (active_events t2) c \<noteq> None \<and> \<not> (\<exists>e2. ev = Some e2 \<and> is_expired e2) \<longrightarrow>
            map_of (active_events t3) c = map_of (active_events t2) c"
    and "distinct (map fst (event_dict t3))"
    and "total_frames t3 = total_frames t2" and "tracker_ttl t3 = tracker_ttl t2"
    and "\<exists>x. r3 = Inr x"
    by (rule process_tagged_classE [OF assms(10) d2 assms(12), of c])
  from seen u2 assms(11) obtain e' where ev: "ev = Some e'"
    and num: "num_detected_frames e' = 1" and cur': "current_ttl e' = tracker_ttl t2"
    by (auto simp: seen_def)
  from cur' pos have live: "\<not> is_expired e'" by (simp add: is_expired_def l2 l1)
  from ed ev live have "map_of (event_dict t3) c = Some e'" by simp
  with num cur' have reapp: "\<exists>e'. map_of (event_dict t3) c = Some e' \<and> num_detected_frames e' = 1
               \<and> current_ttl e' = tracker_ttl t"
    by (auto simp: l2 l1)
  from each have each': "\<forall>j<length ds.
             count_list (ended_keys (rs ! j)) c = (if Suc j = length ds then 1 else 0)"
    by blast
  from pos len each' u1 a1 reapp show ?thesis by blast
qed

theorem ended_once_after_absence_witness:
  "map_of (active_events (run_tracker (RoIBusinessLogic 3 2) \<lparr>uuid_calls = 0, time_calls = 0\<rparr> [\<lparr>frame = 1, predictions = Some [\<lparr>classId = Some ''car''\<rparr>]\<rparr>, \<lparr>frame = 2, predictions = Some [\<lparr>classId = Some ''car''\<rparr>]\<rparr>, \<lparr>frame = 3, predictions = Some [\<lparr>classId = Some ''car''\<rparr>]\<rparr>])) ''car'' = Some 0
   \<and> fst (run (run_tracker (RoIBusinessLogic 3 2) \<lparr>uuid_calls = 0, time_calls = 0\<rparr> [\<lparr>frame = 1, predictions = Some [\<lparr>classId = Some ''car''\<rparr>]\<rparr>, \<lparr>frame = 2, predictions = Some [\<lparr>classId = Some ''car''\<rparr>]\<rparr>, \<lparr>frame = 3, predictions = Some [\<lparr>classId = Some ''car''\<rparr>]\<rparr>]) \<lparr>uuid_calls = 1, time_calls = 1\<rparr> [\<lparr>frame = 4, predictions = Some []\<rparr>, \<lparr>frame = 5, predictions = Some []\<rparr>])
       = [Inr None, Inr (Some [(''car'', EventEndedSignal 0 \<lparr>frame = 3, predictions = Some [\<lparr>classId = Some ''car''\<rparr>]\<rparr>)])]
   \<and> count_list (ended_keys (fst (run (run_tracker (RoIBusinessLogic 3 2) \<lparr>uuid_calls = 0, time_calls = 0\<rparr> [\<lparr>frame = 1, predictions = Some [\<lparr>classId = Some ''car''\<rparr>]\<rparr>, \<lparr>frame = 2, predictions = Some [\<lparr>classId = Some ''car''\<rparr>]\<rparr>, \<lparr>frame = 3, predictions = Some [\<lparr>classId = Some ''car''\<rparr>]\<rparr>]) \<lparr>uuid_calls = 1, time_calls = 1\<rparr> [\<lparr>frame = 4, predictions = Some []\<rparr>, \<lparr>frame = 5, predictions = Some []\<rparr>]) ! 0)) ''car'' = 0
   \<and> count_list (ended_keys (fst (run (run_tracker (RoIBusinessLogic 3 2) \<lparr>uuid_calls = 0, time_calls = 0\<rparr> [\<lparr>frame = 1, predictions = Some [\<lparr>classId = Some ''car''\<rparr>]\<rparr>, \<lparr>frame = 2, predictions = Some [\<lparr>classId = Some ''car''\<rparr>]\<rparr>, \<lparr>frame = 3, predictions = Some [\<lparr>classId = Some ''car''\<rparr>]\<rparr>]) \<lparr>uuid_calls = 1, time_calls = 1\<rparr> [\<lparr>frame = 4, predictions = Some []\<rparr>, \<lparr>frame = 5, predictions = Some []\<rparr>]) ! 1)) ''car'' = 1
   \<and> map_of (event_dict (fst (snd (run (run_tracker (RoIBusinessLogic 3 2) \<lparr>uuid_calls = 0, time_calls = 0\<rparr> [\<lparr>frame = 1, predictions = Some [\<lparr>classId = Some ''car''\<rparr>]\<rparr>, \<lparr>frame = 2, predictions = Some [\<lparr>classId = Some ''car''\<rparr>]\<rparr>, \<lparr>frame = 3, predictions = Some [\<lparr>classId = Some ''car''\<rparr>]\<rparr>]) \<lparr>uuid_calls = 1, time_calls = 1\<rparr> [\<lparr>frame = 4, predictions = Some []\<rparr>, \<lparr>frame = 5, predictions = Some []\<rparr>])))) ''car'' = None
   \<and> map_of (active_events (fst (snd (run (run_tracker (RoIBusinessLogic 3 2) \<lparr>uuid_calls = 0, time_calls = 0\<rparr> [\<lparr>frame = 1, predictions = Some [\<lparr>classId = Some ''car''\<rparr>]\<rparr>, \<lparr>frame = 2, predictions = Some [\<lparr>classId = Some ''car''\<rparr>]\<rparr>, \<lparr>frame = 3, predictions = Some [\<lparr>classId = Some ''car''\<rparr>]\<rparr>]) \<lparr>uuid_calls = 1, time_calls = 1\<rparr> [\<lparr>frame = 4, predictions = Some []\<rparr>, \<lparr>frame = 5, predictions = Some []\<rparr>])))) ''car'' = None
   \<and> (\<exists>e'. map_of (event_dict (fst (snd (process_tagged (fst (snd (run (run_tracker (RoIBusinessLogic 3 2) \<lparr>uuid_calls = 0, time_calls = 0\<rparr> [\<lparr>frame = 1, predictions = Some [\<lparr>classId = Some ''car''\<rparr>]\<rparr>, \<lparr>frame = 2, predictions = Some [\<lparr>classId = Some ''car''\<rparr>]\<rparr>, \<lparr>frame = 3, predictions = Some [\<lparr>classId = Some ''car''\<rparr>]\<rparr>]) \<lparr>uuid_calls = 1, time_calls = 1\<rparr> [\<lparr>frame = 4, predictions = Some []\<rparr>, \<lparr>frame = 5, predictions = Some []\<rparr>]))) \<lparr>frame = 6, predictions = Some [\<lparr>classId = Some ''car''\<rparr>]\<rparr>
                (snd (snd (run (run_tracker (RoIBusinessLogic 3 2) \<lparr>uuid_calls = 0, time_calls = 0\<rparr> [\<lparr>frame = 1, predictions = Some [\<lparr>classId = Some ''car''\<rparr>]\<rparr>, \<lparr>frame = 2, predictions = Some [\<lparr>classId = Some ''car''\<rparr>]\<rparr>, \<lparr>frame = 3, predictions = Some [\<lparr>classId = Some ''car''\<rparr>]\<rparr>]) \<lparr>uuid_calls = 1, time_calls = 1\<rparr> [\<lparr>frame = 4, predictions = Some []\<rparr>, \<lparr>frame = 5, predictions = Some []\<rparr>])))))))
              ''car'' = Some e' \<and> num_detected_frames e' = 1)"
proof -
  let ?t = "(run_tracker (RoIBusinessLogic 3 2) \<lparr>uuid_calls = 0, time_calls = 0\<rparr> [\<lparr>frame = 1, predictions = Some [\<lparr>classId = Some ''car''\<rparr>]\<rparr>, \<lparr>frame = 2, predictions = Some [\<lparr>classId = Some ''car''\<rparr>]\<rparr>, \<lparr>frame = 3, predictions = Some [\<lparr>classId = Some ''car''\<rparr>]\<rparr>])"
  let ?e = "\<lparr>detection = \<lparr>frame = 3, predictions = Some [\<lparr>classId = Some ''car''\<rparr>]\<rparr>, num_detected_frames = 3, creation_time = 0, ttl = 2, current_ttl = 2\<rparr>"
  obtain rs t1 w1 where run: "run ?t \<lparr>uuid_calls = 1, time_calls = 1\<rparr> [\<lparr>frame = 4, predictions = Some []\<rparr>, \<lparr>frame = 5, predictions = Some []\<rparr>] = (rs, t1, w1)"
    by (metis prod_cases3)
  obtain r3 t3 w3 where pt: "process_tagged t1 \<lparr>frame = 6, predictions = Some [\<lparr>classId = Some ''car''\<rparr>]\<rparr> w1 = (r3, t3, w3)"
    by (metis prod_cases3)
  have a: "?t = run_tracker (RoIBusinessLogic 3 2) \<lparr>uuid_calls = 0, time_calls = 0\<rparr> [\<lparr>frame = 1, predictions = Some [\<lparr>classId = Some ''car''\<rparr>]\<rparr>, \<lparr>frame = 2, predictions = Some [\<lparr>classId = Some ''car''\<rparr>]\<rparr>, \<lparr>frame = 3, predictions = Some [\<lparr>classId = Some ''car''\<rparr>]\<rparr>]" by (rule refl)
  have b: "map_of (active_events ?t) ''car'' = Some 0"
    by (simp add: run_tracker_def tracker_eval)
  have c: "map_of (event_dict ?t) ''car'' = Some ?e"
    by (simp add: run_tracker_def tracker_eval)
  have tl: "tracker_ttl ?t = 2"
    by (simp add: run_tracker_def tracker_eval)
  have d: "current_ttl ?e = tracker_ttl ?t" unfolding tl by simp
  have e: "length [\<lparr>frame = 4, predictions = Some []\<rparr>, \<lparr>frame = 5, predictions = Some []\<rparr>] = nat (tracker_ttl ?t)" unfolding tl by simp
  have f: "\<forall>d\<in>set [\<lparr>frame = 4, predictions = Some []\<rparr>, \<lparr>frame = 5, predictions = Some []\<rparr>]. well_formed d \<and> count_list (frame_classes d) ''car'' = 0"
    by (simp add: well_formed_def frame_classes_def List.map_filter_simps)
  have g: "\<forall>d\<in>set []. well_formed d \<and> count_list (frame_classes d) ''car'' = 0" by simp
  have h: "run t1 w1 [] = ([], t1, w1)" by simp
  have k: "well_formed \<lparr>frame = 6, predictions = Some [\<lparr>classId = Some ''car''\<rparr>]\<rparr>" by (simp add: well_formed_def)
  have m: "count_list (frame_classes \<lparr>frame = 6, predictions = Some [\<lparr>classId = Some ''car''\<rparr>]\<rparr>) ''car'' = 1"
    by (simp add: frame_classes_def List.map_filter_simps)
  note main = ended_once_after_absence [OF a b c d e f run g h k m pt]
  have rs: "rs = fst (run ?t \<lparr>uuid_calls = 1, time_calls = 1\<rparr> [\<lparr>frame = 4, predictions = Some []\<rparr>, \<lparr>frame = 5, predictions = Some []\<rparr>])" by (simp only: run fst_conv)
  have t1: "t1 = fst (snd (run ?t \<lparr>uuid_calls = 1, time_calls = 1\<rparr> [\<lparr>frame = 4, predictions = Some []\<rparr>, \<lparr>frame = 5, predictions = Some []\<rparr>]))" by (simp only: run fst_conv snd_conv)
  have w1: "w1 = snd (snd (run ?t \<lparr>uuid_calls = 1, time_calls = 1\<rparr> [\<lparr>frame = 4, predictions = Some []\<rparr>, \<lparr>frame = 5, predictions = Some []\<rparr>]))" by (simp only: run snd_conv)
  have t3: "t3 = fst (snd (process_tagged t1 \<lparr>frame = 6, predictions = Some [\<lparr>classId = Some ''car''\<rparr>]\<rparr> w1))" by (simp only: pt fst_conv snd_conv)
  from main have each: "\<forall>j<length [\<lparr>frame = 4, predictions = Some []\<rparr>, \<lparr>frame = 5, predictions = Some []\<rparr>].
      count_list (ended_keys (rs ! j)) ''car'' = (if Suc j = length [\<lparr>frame = 4, predictions = Some []\<rparr>, \<lparr>frame = 5, predictions = Some []\<rparr>] then 1 else 0)"
    by blast
  have c0: "count_list (ended_keys (rs ! 0)) ''car'' = 0"
    using each [rule_format, of 0] by simp
  have c1: "count_list (ended_keys (rs ! 1)) ''car'' = 1"
    using each [rule_format, of 1] by simp
  from main have u: "map_of (event_dict t1) ''car'' = None"
    and ac: "map_of (active_events t1) ''car'' = None"
    and reapp: "\<exists>e'. map_of (event_dict t3) ''car'' = Some e' \<and> num_detected_frames e' = 1"
    by blast+
  have v: "fst (run ?t \<lparr>uuid_calls = 1, time_calls = 1\<rparr> [\<lparr>frame = 4, predictions = Some []\<rparr>, \<lparr>frame = 5, predictions = Some []\<rparr>]) = [Inr None, Inr (Some [(''car'', EventEndedSignal 0 \<lparr>frame = 3, predictions = Some [\<lparr>classId = Some ''car''\<rparr>]\<rparr>)])]"
    by (simp add: run_tracker_def tracker_eval)
  from b v c0 c1 u ac reapp show ?thesis
    unfolding t3 unfolding rs t1 w1 by blast
qed

end
